theory Spec2Isabelle
  imports Complex_Main
begin

section \<open>JavaScript numbers\<close>

text \<open>
  A JavaScript number is an IEEE 754 double. The model keeps the finite doubles, each as
  the real it denotes, and gives every arithmetic operation the result the standard
  prescribes: the double nearest to the exact result, the one with an even significand on
  a tie. \<open>binary_exponent x\<close> is the \<open>e\<close> with \<open>2^e \<le> x < 2^(e+1)\<close> for positive \<open>x\<close>; doubles
  around \<open>x\<close> are \<open>ulp x\<close> apart (52 fraction bits, exponents from -1022). NaN, the
  infinities, negative zero and results beyond the largest double are outside the model.
  A decimal literal of the source such as \<open>0.1\<close> denotes \<open>to_double 0.1\<close>.
\<close>

function binary_exponent :: "real \<Rightarrow> int" where
  "binary_exponent x =
     (if x \<le> 0 then 0
      else if 2 \<le> x then binary_exponent (x / 2) + 1
      else if x < 1 then binary_exponent (x * 2) - 1
      else 0)"
  by pat_completeness auto
termination
proof (relation "measure (\<lambda>x. if 1 \<le> x then nat \<lceil>x\<rceil> else nat \<lceil>1 / x\<rceil> + 2)")
  show "wf (measure (\<lambda>x. if 1 \<le> x then nat \<lceil>x\<rceil> else nat \<lceil>1 / x\<rceil> + 2))" by simp
next
  fix x :: real
  assume "\<not> x \<le> 0" and x: "2 \<le> x"
  have "\<lceil>x / 2\<rceil> \<le> \<lceil>x - 1\<rceil>" using x by (intro ceiling_mono) simp
  then have "\<lceil>x / 2\<rceil> < \<lceil>x\<rceil>" by simp
  moreover have "0 < \<lceil>x\<rceil>" using x by simp
  ultimately show "(x / 2, x) \<in> measure (\<lambda>x. if 1 \<le> x then nat \<lceil>x\<rceil> else nat \<lceil>1 / x\<rceil> + 2)"
    using x by simp
next
  fix x :: real
  assume p: "\<not> x \<le> 0" and "\<not> 2 \<le> x" and x: "x < 1"
  have y: "1 < 1 / x" using p x by simp
  then have c: "2 \<le> \<lceil>1 / x\<rceil>" by linarith
  show "(x * 2, x) \<in> measure (\<lambda>x. if 1 \<le> x then nat \<lceil>x\<rceil> else nat \<lceil>1 / x\<rceil> + 2)"
  proof (cases "1 \<le> x * 2")
    case True
    have "\<lceil>x * 2\<rceil> \<le> 2" using x by (simp add: ceiling_le_iff)
    then have "nat \<lceil>x * 2\<rceil> < nat \<lceil>1 / x\<rceil> + 2" using c by linarith
    then show ?thesis using True x by simp
  next
    case False
    then have "2 < 1 / x" using p by (simp add: field_simps)
    then have "1 / x / 2 \<le> 1 / x - 1" by simp
    then have "\<lceil>1 / x / 2\<rceil> \<le> \<lceil>1 / x - 1\<rceil>" by (rule ceiling_mono)
    then have "\<lceil>1 / (x * 2)\<rceil> < \<lceil>1 / x\<rceil>" by (simp add: field_simps)
    then have "nat \<lceil>1 / (x * 2)\<rceil> + 2 < nat \<lceil>1 / x\<rceil> + 2" using c by linarith
    then show ?thesis using False x by simp
  qed
qed

declare binary_exponent.simps [simp del]

definition pow2 :: "int \<Rightarrow> real" where
  "pow2 e = (if 0 \<le> e then 2 ^ nat e else 1 / 2 ^ nat (- e))"

definition round_half_even :: "real \<Rightarrow> int" where
  "round_half_even y =
     (if y - of_int \<lfloor>y\<rfloor> < 1 / 2 then \<lfloor>y\<rfloor>
      else if y - of_int \<lfloor>y\<rfloor> > 1 / 2 then \<lfloor>y\<rfloor> + 1
      else if even \<lfloor>y\<rfloor> then \<lfloor>y\<rfloor> else \<lfloor>y\<rfloor> + 1)"

definition ulp :: "real \<Rightarrow> real" where
  "ulp x = pow2 (max (binary_exponent \<bar>x\<bar>) (- 1022) - 52)"

definition to_double :: "real \<Rightarrow> real" where
  "to_double x = (if x = 0 then 0 else of_int (round_half_even (x / ulp x)) * ulp x)"

definition js_add :: "real \<Rightarrow> real \<Rightarrow> real" where
  "js_add a b = to_double (a + b)"

definition js_sub :: "real \<Rightarrow> real \<Rightarrow> real" where
  "js_sub a b = to_double (a - b)"

definition js_mul :: "real \<Rightarrow> real \<Rightarrow> real" where
  "js_mul a b = to_double (a * b)"

definition js_div :: "real \<Rightarrow> real \<Rightarrow> real" where
  "js_div a b = to_double (a / b)"

text \<open>\<open>Math.PI\<close> is the double nearest to \<open>\<pi>\<close>.\<close>

definition Math_PI :: real where
  "Math_PI = to_double pi"

section \<open>Theme switcher (class ThemeSwitcher)\<close>

text \<open>
  The class keeps the current theme in \<open>this.theme\<close> and a reference to the button
  \<open>#theme-toggle\<close> in \<open>this.toggle\<close>. Everything else it touches belongs to the browser:
  the attribute \<open>data-theme\<close> of the root element, the key \<open>theme\<close> of localStorage, the
  media query \<open>(prefers-color-scheme: dark)\<close>, the events dispatched on \<open>window\<close> and the
  console. The model is one record holding the object's fields and these parts of the
  page; every method maps a state to the state after the call.
\<close>

datatype jsval = JSUndefined | JSNull | JSBoolean bool | JSNumber int | JSString string

record toggle_button =
  aria_label :: "string option"
  title_attr :: "string option"
  style_transform :: "string option"

record theme_state =
  theme :: string
  toggle :: bool
  theme_toggle :: "toggle_button option"
  data_theme :: "string option"
  localStorage_theme :: "string option"
  prefers_dark :: bool
  mq_can_listen :: bool
  watching :: bool
  dispatched :: "string list"
  console_error :: "string list"
  pending_scale_resets :: nat

text \<open>
  \<open>toggle\<close> is True when \<open>this.toggle\<close> holds the element and False when it is null;
  \<open>theme_toggle\<close> is the element itself, None when the page has none. \<open>dispatched\<close> lists
  the \<open>detail.theme\<close> of every \<open>themechange\<close> event in the order of dispatch.
  \<open>mq_can_listen\<close> says that the media query offers \<open>addEventListener\<close> or
  \<open>addListener\<close>; \<open>watching\<close> that a change handler was registered.
\<close>

definition truthy :: "string option \<Rightarrow> bool" where
  "truthy v = (case v of None \<Rightarrow> False | Some t \<Rightarrow> t \<noteq> [])"

definition getStoredTheme :: "theme_state \<Rightarrow> string option" where
  "getStoredTheme s = localStorage_theme s"

definition getPreferredTheme :: "theme_state \<Rightarrow> string" where
  "getPreferredTheme s = (if prefers_dark s then ''dark'' else ''light'')"

definition other_mode_label :: "string \<Rightarrow> string" where
  "other_mode_label t = ''Switch to '' @ (if t = ''light'' then ''dark'' else ''light'') @ '' mode''"

definition updateToggleUI :: "theme_state \<Rightarrow> theme_state" where
  "updateToggleUI s =
     (if \<not> toggle s then s
      else s\<lparr>theme_toggle :=
               map_option (\<lambda>b. b\<lparr>aria_label := Some (other_mode_label (theme s)),
                                    title_attr := Some (other_mode_label (theme s))\<rparr>)
                 (theme_toggle s)\<rparr>)"

definition applyTheme :: "string \<Rightarrow> theme_state \<Rightarrow> theme_state" where
  "applyTheme t s =
     (let s1 = s\<lparr>data_theme := Some t\<rparr>;
          s2 = s1\<lparr>localStorage_theme := Some t\<rparr>;
          s3 = s2\<lparr>theme := t\<rparr>;
          s4 = updateToggleUI s3
      in s4\<lparr>dispatched := dispatched s4 @ [t]\<rparr>)"

definition setupToggle :: "theme_state \<Rightarrow> theme_state" where
  "setupToggle s = s\<lparr>toggle := (theme_toggle s \<noteq> None)\<rparr>"

definition watchSystemTheme :: "theme_state \<Rightarrow> theme_state" where
  "watchSystemTheme s = s\<lparr>watching := mq_can_listen s\<rparr>"

definition init_theme :: "theme_state \<Rightarrow> theme_state" where
  "init_theme s = watchSystemTheme (setupToggle (applyTheme (theme s) s))"

text \<open>
  The constructor: \<open>this.theme = this.getStoredTheme() || this.getPreferredTheme()\<close>, where
  a missing key and the empty string are both falsy. Its argument is the page as found.
\<close>

definition new_ThemeSwitcher :: "theme_state \<Rightarrow> theme_state" where
  "new_ThemeSwitcher page =
     init_theme (page\<lparr>theme := (if truthy (getStoredTheme page) then the (getStoredTheme page)
                                   else getPreferredTheme page),
                        toggle := False\<rparr>)"

definition getCurrentTheme :: "theme_state \<Rightarrow> string" where
  "getCurrentTheme s = theme s"

definition dq :: char where
  "dq = CHR 0x22"

definition invalid_theme_message :: string where
  "invalid_theme_message =
     ''Invalid theme. Use '' @ [dq] @ ''light'' @ [dq] @ '' or '' @ [dq] @ ''dark'' @ [dq]"

definition setTheme :: "jsval \<Rightarrow> theme_state \<Rightarrow> theme_state" where
  "setTheme v s =
     (if v = JSString ''light'' \<or> v = JSString ''dark''
      then applyTheme (case v of JSString t \<Rightarrow> t | _ \<Rightarrow> []) s
      else s\<lparr>console_error := console_error s @ [invalid_theme_message]\<rparr>)"

definition toggleTheme :: "theme_state \<Rightarrow> theme_state" where
  "toggleTheme s = applyTheme (if theme s = ''light'' then ''dark'' else ''light'') s"

definition resetToSystemPreference :: "theme_state \<Rightarrow> theme_state" where
  "resetToSystemPreference s =
     (let s1 = s\<lparr>localStorage_theme := None\<rparr>
      in applyTheme (getPreferredTheme s1) s1)"

text \<open>
  The handlers the constructor registers. A click on the button (the keydown handler for
  Enter and space calls \<open>click()\<close>) flips the theme, shrinks the button and schedules the
  reset of its scale; the handler exists only when the button was found. A change of the
  OS preference applies the new preference only when no theme is stored.
\<close>

definition toggle_click :: "theme_state \<Rightarrow> theme_state" where
  "toggle_click s =
     (if \<not> toggle s then s
      else let s1 = applyTheme (if theme s = ''light'' then ''dark'' else ''light'') s
           in s1\<lparr>theme_toggle :=
                     map_option (\<lambda>b. b\<lparr>style_transform := Some ''scale(0.95)''\<rparr>) (theme_toggle s1),
                   pending_scale_resets := Suc (pending_scale_resets s1)\<rparr>)"

definition scale_reset_fires :: "theme_state \<Rightarrow> theme_state" where
  "scale_reset_fires s =
     (if pending_scale_resets s = 0 then s
      else s\<lparr>theme_toggle :=
                map_option (\<lambda>b. b\<lparr>style_transform := Some ''scale(1)''\<rparr>) (theme_toggle s),
              pending_scale_resets := pending_scale_resets s - 1\<rparr>)"

definition system_theme_change :: "bool \<Rightarrow> theme_state \<Rightarrow> theme_state" where
  "system_theme_change matches s =
     (let s1 = s\<lparr>prefers_dark := matches\<rparr>
      in if watching s1 \<and> \<not> truthy (getStoredTheme s1)
         then applyTheme (if matches then ''dark'' else ''light'') s1
         else s1)"

datatype theme_op =
    SetTheme jsval
  | ToggleTheme
  | ResetToSystemPreference
  | ToggleClick
  | ScaleResetFires
  | SystemThemeChange bool

fun theme_step :: "theme_op \<Rightarrow> theme_state \<Rightarrow> theme_state" where
  "theme_step (SetTheme v) s = setTheme v s"
| "theme_step ToggleTheme s = toggleTheme s"
| "theme_step ResetToSystemPreference s = resetToSystemPreference s"
| "theme_step ToggleClick s = toggle_click s"
| "theme_step ScaleResetFires s = scale_reset_fires s"
| "theme_step (SystemThemeChange m) s = system_theme_change m s"

fun theme_run :: "theme_op list \<Rightarrow> theme_state \<Rightarrow> theme_state" where
  "theme_run [] s = s"
| "theme_run (a # as) s = theme_run as (theme_step a s)"

text \<open>A page for the examples: a stored dark theme, an OS that prefers light, a button.\<close>

definition page0 :: theme_state where
  "page0 = \<lparr>theme = [], toggle = False,
            theme_toggle = Some \<lparr>aria_label = None, title_attr = None, style_transform = None\<rparr>,
            data_theme = None, localStorage_theme = Some ''dark'', prefers_dark = False,
            mq_can_listen = True, watching = False, dispatched = [], console_error = [],
            pending_scale_resets = 0\<rparr>"

section \<open>Scroll animations (class ScrollAnimations)\<close>

text \<open>
  The document is a tree of elements. An element has an identity (the number \<open>eid\<close>), the
  value of its attribute \<open>data-animate\<close> (None when it has none), the presence of the
  attribute \<open>data-stagger\<close> and its children in document order. What the class changes
  (class lists and inline styles) is kept beside the tree, by element identity.
\<close>

datatype dom = Element (eid: nat) (data_animate: "string option") (data_stagger: bool)
  (children: "dom list")

fun subtree :: "dom \<Rightarrow> dom list" and forest :: "dom list \<Rightarrow> dom list" where
  "subtree (Element i a g cs) = Element i a g cs # forest cs"
| "forest [] = []"
| "forest (c # cs) = subtree c @ forest cs"

text \<open>
  \<open>parent.querySelectorAll('[data-animate]')\<close>: the descendants of the element (itself
  excluded) that carry the attribute, in document order. On the document the root element
  takes part.
\<close>

definition querySelectorAll_animate :: "dom \<Rightarrow> nat list" where
  "querySelectorAll_animate p =
     map eid (filter (\<lambda>d. data_animate d \<noteq> None) (forest (children p)))"

definition document_querySelectorAll_animate :: "dom \<Rightarrow> nat list" where
  "document_querySelectorAll_animate doc =
     map eid (filter (\<lambda>d. data_animate d \<noteq> None) (subtree doc))"

text \<open>The elements from the root down to the element \<open>e\<close>, both included.\<close>

fun path_to :: "dom \<Rightarrow> nat \<Rightarrow> dom list option"
  and path_to_forest :: "dom list \<Rightarrow> nat \<Rightarrow> dom list option" where
  "path_to (Element i a g cs) e =
     (if i = e then Some [Element i a g cs]
      else (case path_to_forest cs e of
              None \<Rightarrow> None
            | Some p \<Rightarrow> Some (Element i a g cs # p)))"
| "path_to_forest [] e = None"
| "path_to_forest (c # cs) e =
     (case path_to c e of Some p \<Rightarrow> Some p | None \<Rightarrow> path_to_forest cs e)"

text \<open>
  \<open>element.closest('[data-stagger]')\<close>: the element itself or its nearest ancestor that
  carries the attribute; null when there is none.
\<close>

definition closest_stagger :: "dom \<Rightarrow> nat \<Rightarrow> dom option" where
  "closest_stagger doc e =
     (case path_to doc e of
        None \<Rightarrow> None
      | Some p \<Rightarrow> (case filter data_stagger (rev p) of [] \<Rightarrow> None | a # _ \<Rightarrow> Some a))"

definition getAttribute_data_animate :: "dom \<Rightarrow> nat \<Rightarrow> string option" where
  "getAttribute_data_animate doc e =
     (case find (\<lambda>d. eid d = e) (subtree doc) of None \<Rightarrow> None | Some d \<Rightarrow> data_animate d)"

text \<open>\<open>Array.prototype.indexOf\<close>: the first position of the value, -1 when it is absent.\<close>

fun indexOf :: "'a list \<Rightarrow> 'a \<Rightarrow> int" where
  "indexOf [] a = - 1"
| "indexOf (b # bs) a =
     (if b = a then 0 else (let r = indexOf bs a in if r < 0 then - 1 else r + 1))"

record scroll_state =
  opt_threshold :: real
  opt_rootMargin :: string
  opt_once :: bool
  observer :: "nat list option"
  elements :: "nat list"
  document :: dom
  is_visible :: "nat set"
  transitionDelay :: "nat \<Rightarrow> real option"
  inline_style :: "nat \<Rightarrow> string \<Rightarrow> string option"
  delay_resets :: "nat list"
  animated_events :: "(nat \<times> string option) list"
  reduced_motion :: bool
  has_IntersectionObserver :: bool

text \<open>
  \<open>observer\<close> is None for \<open>this.observer = null\<close> and otherwise lists the targets the
  IntersectionObserver watches. \<open>is_visible\<close> holds the elements whose class list contains
  \<open>is-visible\<close>. \<open>transitionDelay\<close> is \<open>style.transitionDelay\<close> in seconds, None for the
  empty string; it is the double \<open>index * 0.1\<close>, which the source writes into the string
  \<open>`${index * 0.1}s`\<close>. \<open>delay_resets\<close> lists the elements with a pending one-second timer,
  \<open>animated_events\<close> the \<open>animated\<close> events dispatched (target and \<open>detail.type\<close>).
\<close>

definition animateElement :: "nat \<Rightarrow> scroll_state \<Rightarrow> scroll_state" where
  "animateElement element s =
     (let s1 = (case closest_stagger (document s) element of
                  None \<Rightarrow> s
                | Some parent \<Rightarrow>
                    (let siblings = querySelectorAll_animate parent;
                         index = indexOf siblings element
                     in s\<lparr>transitionDelay :=
                            (transitionDelay s)(element := Some (js_mul (of_int index) (to_double 0.1)))\<rparr>));
          s2 = s1\<lparr>is_visible := insert element (is_visible s1)\<rparr>;
          s3 = s2\<lparr>delay_resets := delay_resets s2 @ [element]\<rparr>
      in s3\<lparr>animated_events :=
              animated_events s3 @ [(element, getAttribute_data_animate (document s3) element)]\<rparr>)"

text \<open>The callback of \<open>setTimeout\<close> in \<open>animateElement\<close>, for the oldest pending timer.\<close>

definition delay_reset_fires :: "scroll_state \<Rightarrow> scroll_state" where
  "delay_reset_fires s =
     (case delay_resets s of
        [] \<Rightarrow> s
      | e # rest \<Rightarrow> s\<lparr>transitionDelay := (transitionDelay s)(e := None), delay_resets := rest\<rparr>)"

text \<open>
  A call either returns or throws; what it changed before throwing stays changed.
  \<open>handleIntersection\<close> throws a TypeError when it reaches \<open>this.observer.unobserve\<close>
  with \<open>this.observer\<close> null, and the entries after that one are not processed.
\<close>

datatype 'a outcome = Returned 'a | Threw 'a

fun state_of :: "'a outcome \<Rightarrow> 'a" where
  "state_of (Returned s) = s"
| "state_of (Threw s) = s"

fun forEach :: "('a \<Rightarrow> 's \<Rightarrow> 's outcome) \<Rightarrow> 'a list \<Rightarrow> 's \<Rightarrow> 's outcome" where
  "forEach f [] s = Returned s"
| "forEach f (a # as) s = (case f a s of Returned s1 \<Rightarrow> forEach f as s1 | Threw s1 \<Rightarrow> Threw s1)"

text \<open>The callback of \<open>entries.forEach\<close>; an entry is its target and \<open>isIntersecting\<close>.\<close>

definition handle_entry :: "nat \<times> bool \<Rightarrow> scroll_state \<Rightarrow> scroll_state outcome" where
  "handle_entry entry s =
     (if snd entry then
        (let s1 = animateElement (fst entry) s in
         if opt_once s1 then
           (case observer s1 of
              None \<Rightarrow> Threw s1
            | Some obs \<Rightarrow> Returned (s1\<lparr>observer := Some (removeAll (fst entry) obs)\<rparr>))
         else Returned s1)
      else if \<not> opt_once s then
        Returned (s\<lparr>is_visible := is_visible s - {fst entry}\<rparr>)
      else Returned s)"

definition handleIntersection :: "(nat \<times> bool) list \<Rightarrow> scroll_state \<Rightarrow> scroll_state outcome" where
  "handleIntersection entries s = forEach handle_entry entries s"

definition observer_observe :: "nat \<Rightarrow> nat list \<Rightarrow> nat list" where
  "observer_observe el obs = (if el \<in> set obs then obs else obs @ [el])"

definition createObserver :: "scroll_state \<Rightarrow> scroll_state" where
  "createObserver s = s\<lparr>observer := Some []\<rparr>"

definition observeElements :: "scroll_state \<Rightarrow> scroll_state" where
  "observeElements s =
     (let s1 = s\<lparr>elements := document_querySelectorAll_animate (document s)\<rparr>
      in s1\<lparr>observer := map_option (\<lambda>obs. foldl (\<lambda>acc el. observer_observe el acc) obs (elements s1))
                             (observer s1)\<rparr>)"

definition show_element :: "nat \<Rightarrow> scroll_state \<Rightarrow> scroll_state" where
  "show_element el s =
     s\<lparr>is_visible := insert el (is_visible s),
       inline_style := (inline_style s)(el := ((inline_style s el)
          (''opacity'' \<mapsto> ''1'', ''transform'' \<mapsto> ''none'', ''filter'' \<mapsto> ''none'')))\<rparr>"

definition showAllElements :: "scroll_state \<Rightarrow> scroll_state" where
  "showAllElements s = foldl (\<lambda>acc el. show_element el acc) s
     (document_querySelectorAll_animate (document s))"

definition init_scroll :: "scroll_state \<Rightarrow> scroll_state" where
  "init_scroll s =
     (if reduced_motion s then showAllElements s
      else if \<not> has_IntersectionObserver s then showAllElements s
      else observeElements (createObserver s))"

text \<open>
  The constructor. \<open>threshold\<close> and \<open>rootMargin\<close> fall back on their defaults when the
  option is missing or falsy; \<open>once\<close> is false only for the boolean \<open>false\<close>.
\<close>

definition new_ScrollAnimations ::
  "real option \<Rightarrow> string option \<Rightarrow> jsval \<Rightarrow> scroll_state \<Rightarrow> scroll_state" where
  "new_ScrollAnimations threshold rootMargin once_option page =
     init_scroll (page\<lparr>
       opt_threshold := (case threshold of None \<Rightarrow> to_double 0.1
                         | Some t \<Rightarrow> if t = 0 then to_double 0.1 else t),
       opt_rootMargin := (if truthy rootMargin then the rootMargin else ''0px 0px -50px 0px''),
       opt_once := (once_option \<noteq> JSBoolean False),
       observer := None,
       elements := []\<rparr>)"

text \<open>
  \<open>observe(elements)\<close> takes a selector, one element or an array. A selector is given by
  the elements it matches; an array entry that is no HTMLElement is None and is skipped.
\<close>

datatype observe_arg = Selector "nat list" | OneElement nat | ElementArray "nat option list"
  | OtherValue

fun observe_targets :: "observe_arg \<Rightarrow> nat option list" where
  "observe_targets (Selector els) = map Some els"
| "observe_targets (OneElement el) = [Some el]"
| "observe_targets (ElementArray arr) = arr"
| "observe_targets OtherValue = []"

fun observe_each :: "nat option list \<Rightarrow> scroll_state \<Rightarrow> scroll_state" where
  "observe_each [] s = s"
| "observe_each (None # arr) s = observe_each arr s"
| "observe_each (Some el # arr) s =
     observe_each arr
       (s\<lparr>observer := map_option (observer_observe el) (observer s),
          elements := elements s @ [el]\<rparr>)"

definition observe :: "observe_arg \<Rightarrow> scroll_state \<Rightarrow> scroll_state" where
  "observe arg s = (if observer s = None then s else observe_each (observe_targets arg) s)"

definition refresh :: "scroll_state \<Rightarrow> scroll_state" where
  "refresh s =
     (if observer s = None then s
      else observeElements (s\<lparr>observer := Some [], elements := []\<rparr>))"

definition destroy_scroll :: "scroll_state \<Rightarrow> scroll_state" where
  "destroy_scroll s =
     (let s1 = (if observer s \<noteq> None then s\<lparr>observer := None\<rparr> else s)
      in s1\<lparr>elements := []\<rparr>)"

datatype scroll_op =
    Intersections "(nat \<times> bool) list"
  | DelayResetFires
  | Observe observe_arg
  | Refresh
  | Destroy

fun scroll_step :: "scroll_op \<Rightarrow> scroll_state \<Rightarrow> scroll_state" where
  "scroll_step (Intersections entries) s = state_of (handleIntersection entries s)"
| "scroll_step DelayResetFires s = delay_reset_fires s"
| "scroll_step (Observe arg) s = observe arg s"
| "scroll_step Refresh s = refresh s"
| "scroll_step Destroy s = destroy_scroll s"

fun scroll_run :: "scroll_op list \<Rightarrow> scroll_state \<Rightarrow> scroll_state" where
  "scroll_run [] s = s"
| "scroll_run (a # as) s = scroll_run as (scroll_step a s)"

text \<open>
  A page for the examples: a stagger group (element 1) with three reveal targets (2, 3, 4)
  and a reveal target outside every group (5).
\<close>

definition group0 :: dom where
  "group0 = Element 1 None True
     [Element 2 (Some ''fade-up'') False [],
      Element 3 (Some ''fade-up'') False [],
      Element 4 (Some ''scale'') False []]"

definition doc0 :: dom where
  "doc0 = Element 0 None False [group0, Element 5 (Some ''fade-in'') False []]"

definition scroll_page0 :: scroll_state where
  "scroll_page0 = \<lparr>opt_threshold = 0, opt_rootMargin = [], opt_once = False, observer = None,
     elements = [], document = doc0, is_visible = {}, transitionDelay = (\<lambda>_. None),
     inline_style = (\<lambda>_. Map.empty), delay_resets = [], animated_events = [],
     reduced_motion = False, has_IntersectionObserver = True\<rparr>"

definition scroll0 :: scroll_state where
  "scroll0 = new_ScrollAnimations (Some (to_double 0.1)) (Some ''0px 0px -50px 0px'') JSUndefined
     scroll_page0"

text \<open>
  A page with a stagger group inside another: the outer group (element 1) has the reveal
  targets 2, 4, 5 and 6, of which 4 and 5 belong to the inner group (element 3).
\<close>

definition group1 :: dom where
  "group1 = Element 1 None True
     [Element 2 (Some ''fade-up'') False [],
      Element 3 None True
        [Element 4 (Some ''fade-up'') False [],
         Element 5 (Some ''fade-up'') False []],
      Element 6 (Some ''fade-up'') False []]"

definition doc1 :: dom where
  "doc1 = Element 0 None False [group1]"

definition scroll1 :: scroll_state where
  "scroll1 = new_ScrollAnimations None None JSUndefined (scroll_page0\<lparr>document := doc1\<rparr>)"

definition crosses :: "nat \<Rightarrow> scroll_op \<Rightarrow> bool" where
  "crosses e a = (case a of Intersections entries \<Rightarrow> (e, True) \<in> set entries | _ \<Rightarrow> False)"

section \<open>Particle background (class ParticleBackground)\<close>

text \<open>
  Numbers are doubles and the arithmetic is that of the section on JavaScript numbers;
  where the source divides by zero the case is written out. \<open>Math.sin\<close> and \<open>Math.sqrt\<close>
  are approximations that the engine chooses, so the model takes them from the browser.
  A particle's fields \<open>x\<close>, \<open>y\<close> and \<open>size\<close> are named \<open>px\<close>, \<open>py\<close> and \<open>psize\<close>.
\<close>

record particle =
  px :: real
  py :: real
  psize :: real
  speedX :: real
  speedY :: real
  opacity :: real
  colorIndex :: nat
  pulseOffset :: real

record pb_options =
  particleCount :: nat
  particleSize_min :: real
  particleSize_max :: real
  speed_min :: real
  speed_max :: real
  opacity_min :: real
  opacity_max :: real
  colors :: "string list"
  darkColors :: "string list"
  fps :: real
  connectParticles :: bool
  color :: "string option"

text \<open>
  What is painted on the canvas since it was last cleared: the glow and the core of a
  particle (centre, radius, colour, opacity at the centre) and the connecting lines.
\<close>

datatype shape =
    Glow real real real "string option" real
  | Core real real real "string option" real
  | Line real real real real "string option" real

datatype pb_method = Resize | HandleThemeChange | Animate

datatype log_entry = CanvasNotFound | Initialized nat | ThemeChangedTo string

text \<open>
  The object's fields come first, then the browser: the window's size, the clock
  \<open>Date.now()\<close>, the pending animation-frame requests (request id and callback), the
  listeners registered on \<open>window\<close> (event type and listener), the function objects made
  by \<open>bind\<close> (every call of \<open>bind\<close> makes a new one), the attribute \<open>data-theme\<close> of the root
  element, the console, \<open>Math.random\<close> (a sequence of draws and the number of draws
  taken) and the engine's \<open>Math.sin\<close> and \<open>Math.sqrt\<close>. \<open>draw_calls\<close> counts the calls of
  \<open>draw\<close>; the source has no such field.
\<close>

record particle_state =
  has_canvas :: bool
  ctx :: bool
  canvas_width :: nat
  canvas_height :: nat
  surface :: "shape list"
  particles :: "particle list"
  options :: pb_options
  fpsInterval :: "real option"
  then_ms :: real
  animationId :: "nat option"
  time :: "real option"
  draw_calls :: nat
  innerWidth :: nat
  innerHeight :: nat
  clock :: real
  frame_requests :: "(nat \<times> nat) list"
  last_request :: nat
  listeners :: "(string \<times> nat) list"
  function_objects :: "nat \<Rightarrow> pb_method option"
  next_function :: nat
  root_data_theme :: "string option"
  console :: "log_entry list"
  random :: "nat \<Rightarrow> real"
  random_calls :: nat
  Math_sin :: "real \<Rightarrow> real"
  Math_sqrt :: "real \<Rightarrow> real"

definition bind :: "pb_method \<Rightarrow> particle_state \<Rightarrow> nat \<times> particle_state" where
  "bind m s =
     (next_function s,
      s\<lparr>function_objects := (function_objects s)(next_function s := Some m),
        next_function := Suc (next_function s)\<rparr>)"

definition addEventListener :: "string \<Rightarrow> nat \<Rightarrow> particle_state \<Rightarrow> particle_state" where
  "addEventListener ty f s =
     (if (ty, f) \<in> set (listeners s) then s else s\<lparr>listeners := listeners s @ [(ty, f)]\<rparr>)"

definition removeEventListener :: "string \<Rightarrow> nat \<Rightarrow> particle_state \<Rightarrow> particle_state" where
  "removeEventListener ty f s = s\<lparr>listeners := removeAll (ty, f) (listeners s)\<rparr>"

text \<open>Request ids start at 1, so a stored id is never falsy.\<close>

definition requestAnimationFrame :: "nat \<Rightarrow> particle_state \<Rightarrow> nat \<times> particle_state" where
  "requestAnimationFrame f s =
     (Suc (last_request s),
      s\<lparr>frame_requests := frame_requests s @ [(Suc (last_request s), f)],
        last_request := Suc (last_request s)\<rparr>)"

definition cancelAnimationFrame :: "nat \<Rightarrow> particle_state \<Rightarrow> particle_state" where
  "cancelAnimationFrame i s = s\<lparr>frame_requests := filter (\<lambda>r. fst r \<noteq> i) (frame_requests s)\<rparr>"

definition clearRect :: "particle_state \<Rightarrow> particle_state" where
  "clearRect s = s\<lparr>surface := []\<rparr>"

definition next_random :: "particle_state \<Rightarrow> real \<times> particle_state" where
  "next_random s = (random s (random_calls s), s\<lparr>random_calls := Suc (random_calls s)\<rparr>)"

definition new_particle :: "particle_state \<Rightarrow> particle \<times> particle_state" where
  "new_particle s =
     (let opts = options s;
          (r0, s0) = next_random s;
          (r1, s1) = next_random s0;
          (r2, s2) = next_random s1;
          (r3, s3) = next_random s2;
          (r4, s4) = next_random s3;
          (r5, s5) = next_random s4;
          (r6, s6) = next_random s5;
          (r7, s7) = next_random s6
      in (\<lparr>px = js_mul r0 (real (canvas_width s)),
           py = js_mul r1 (real (canvas_height s)),
           psize = js_add (js_mul r2 (js_sub (particleSize_max opts) (particleSize_min opts)))
                     (particleSize_min opts),
           speedX = js_add (js_mul r3 (js_sub (speed_max opts) (speed_min opts))) (speed_min opts),
           speedY = js_add (js_mul r4 (js_sub (speed_max opts) (speed_min opts))) (speed_min opts),
           opacity = js_add (js_mul r5 (js_sub (opacity_max opts) (opacity_min opts)))
                       (opacity_min opts),
           colorIndex = nat \<lfloor>js_mul r6 (real (length (colors opts)))\<rfloor>,
           pulseOffset = js_mul (js_mul r7 Math_PI) 2\<rparr>, s7))"

fun push_particles :: "nat \<Rightarrow> particle_state \<Rightarrow> particle_state" where
  "push_particles 0 s = s"
| "push_particles (Suc n) s =
     (let (p, s1) = new_particle s in push_particles n (s1\<lparr>particles := particles s1 @ [p]\<rparr>))"

definition createParticles :: "particle_state \<Rightarrow> particle_state" where
  "createParticles s = push_particles (particleCount (options s)) (s\<lparr>particles := []\<rparr>)"

text \<open>Setting the width or the height of a canvas also clears it.\<close>

definition resize :: "particle_state \<Rightarrow> particle_state" where
  "resize s =
     (let s1 = s\<lparr>canvas_width := innerWidth s, canvas_height := innerHeight s, surface := []\<rparr>
      in if length (particles s1) > 0 then createParticles s1 else s1)"

definition wrap_edges :: "particle_state \<Rightarrow> particle \<Rightarrow> particle" where
  "wrap_edges s p =
     (let p1 = (if px p < 0 then p\<lparr>px := real (canvas_width s)\<rparr> else p);
          p2 = (if px p1 > real (canvas_width s) then p1\<lparr>px := 0\<rparr> else p1);
          p3 = (if py p2 < 0 then p2\<lparr>py := real (canvas_height s)\<rparr> else p2)
      in if py p3 > real (canvas_height s) then p3\<lparr>py := 0\<rparr> else p3)"

definition updateParticle :: "particle_state \<Rightarrow> particle \<Rightarrow> particle" where
  "updateParticle s p =
     (let p1 = p\<lparr>px := js_add (px p) (speedX p)\<rparr>;
          p2 = p1\<lparr>py := js_add (py p1) (speedY p1)\<rparr>
      in wrap_edges s p2)"

definition nth_opt :: "'a list \<Rightarrow> nat \<Rightarrow> 'a option" where
  "nth_opt xs i = (if i < length xs then Some (xs ! i) else None)"

definition drawParticle :: "particle_state \<Rightarrow> real \<Rightarrow> particle \<Rightarrow> shape list" where
  "drawParticle s t p =
     (let cols = (if root_data_theme s = Some ''dark'' then darkColors (options s)
                  else colors (options s));
          col = nth_opt cols (colorIndex p);
          pulse = js_mul (Math_sin s (js_add (js_mul t 2) (pulseOffset p))) (to_double 0.1);
          alpha = max (to_double 0.1) (min 0.5 (js_add (opacity p) pulse))
      in [Glow (px p) (py p) (js_mul (psize p) 3) col alpha,
          Core (px p) (py p) (psize p) col (js_mul alpha 1.5)])"

definition connection :: "particle_state \<Rightarrow> particle \<Rightarrow> particle \<Rightarrow> shape list" where
  "connection s p q =
     (let dx = js_sub (px p) (px q);
          dy = js_sub (py p) (py q);
          distance = Math_sqrt s (js_add (js_mul dx dx) (js_mul dy dy))
      in if distance < 150
         then [Line (px p) (py p) (px q) (py q) (color (options s))
                 (js_mul (js_sub 1 (js_div distance 150)) (to_double 0.2))]
         else [])"

definition drawConnections :: "particle_state \<Rightarrow> particle_state" where
  "drawConnections s =
     s\<lparr>surface := surface s @
         concat (map (\<lambda>i. concat (map (\<lambda>j. connection s (particles s ! i) (particles s ! j))
                                    [Suc i ..< length (particles s)]))
                     [0 ..< length (particles s)])\<rparr>"

definition draw :: "particle_state \<Rightarrow> particle_state" where
  "draw s =
     (let s1 = (clearRect s)\<lparr>draw_calls := Suc (draw_calls s)\<rparr>;
          t = js_add (case time s1 of None \<Rightarrow> 0 | Some t0 \<Rightarrow> t0) (to_double 0.01);
          s2 = s1\<lparr>time := Some t\<rparr>;
          ps = map (updateParticle s2) (particles s2);
          s3 = s2\<lparr>particles := ps, surface := surface s2 @ concat (map (drawParticle s2 t) ps)\<rparr>
      in if connectParticles (options s3) then drawConnections s3 else s3)"

text \<open>
  The remainder \<open>a % b\<close> of JavaScript for \<open>b\<close> other than 0: it has the sign of \<open>a\<close>, and
  the remainder of two doubles is a double, so nothing is rounded.
\<close>

definition js_fmod :: "real \<Rightarrow> real \<Rightarrow> real" where
  "js_fmod a b = sgn a * (\<bar>a\<bar> - \<bar>b\<bar> * of_int \<lfloor>\<bar>a\<bar> / \<bar>b\<bar>\<rfloor>)"

definition animate :: "particle_state \<Rightarrow> particle_state" where
  "animate s =
     (let (f, s1) = bind Animate s;
          (i, s2) = requestAnimationFrame f s1;
          s3 = s2\<lparr>animationId := Some i\<rparr>;
          now = clock s3;
          elapsed = js_sub now (then_ms s3)
      in (case fpsInterval s3 of
            None \<Rightarrow> s3
          | Some interval \<Rightarrow>
              if elapsed > interval
              then draw (s3\<lparr>then_ms := js_sub now (js_fmod elapsed interval)\<rparr>)
              else s3))"

definition handleThemeChange :: "string \<Rightarrow> particle_state \<Rightarrow> particle_state" where
  "handleThemeChange t s = s\<lparr>console := console s @ [ThemeChangedTo t]\<rparr>"

definition init_particles :: "particle_state \<Rightarrow> particle_state" where
  "init_particles s =
     (let s1 = resize s;
          (f1, s2) = bind Resize s1;
          s3 = addEventListener ''resize'' f1 s2;
          (f2, s4) = bind HandleThemeChange s3;
          s5 = addEventListener ''themechange'' f2 s4;
          s6 = createParticles s5;
          s7 = animate s6
      in s7\<lparr>console := console s7 @ [Initialized (length (particles s7))]\<rparr>)"

text \<open>
  The constructor, given the merged options \<open>this.options\<close>. \<open>fpsInterval\<close> is None when
  \<open>1000 / fps\<close> is not finite; no frame is then drawn.
\<close>

definition new_ParticleBackground :: "pb_options \<Rightarrow> particle_state \<Rightarrow> particle_state" where
  "new_ParticleBackground opts page =
     (if \<not> has_canvas page then page\<lparr>console := console page @ [CanvasNotFound]\<rparr>
      else init_particles
             (page\<lparr>ctx := True, particles := [], options := opts,
                   fpsInterval := (if fps opts = 0 then None else Some (js_div 1000 (fps opts))),
                   then_ms := clock page, animationId := None\<rparr>))"

definition pause :: "particle_state \<Rightarrow> particle_state" where
  "pause s =
     (case animationId s of
        None \<Rightarrow> s
      | Some i \<Rightarrow> if i = 0 then s else (cancelAnimationFrame i s)\<lparr>animationId := None\<rparr>)"

definition resume :: "particle_state \<Rightarrow> particle_state" where
  "resume s =
     (if animationId s = None \<or> animationId s = Some 0
      then animate (s\<lparr>then_ms := clock s\<rparr>)
      else s)"

definition destroy :: "particle_state \<Rightarrow> particle_state" where
  "destroy s =
     (let s1 = pause s;
          (f1, s2) = bind Resize s1;
          s3 = removeEventListener ''resize'' f1 s2;
          (f2, s4) = bind HandleThemeChange s3;
          s5 = removeEventListener ''themechange'' f2 s4;
          s6 = s5\<lparr>particles := []\<rparr>
      in if ctx s6 then clearRect s6 else s6)"

text \<open>
  What the browser does to the object: it runs the oldest pending frame request, resizes
  the window and calls the resize listeners, dispatches a \<open>themechange\<close> event to its
  listeners, and lets time pass (\<open>Date.now()\<close> counts whole milliseconds).
\<close>

definition call_function :: "nat \<Rightarrow> string \<Rightarrow> particle_state \<Rightarrow> particle_state" where
  "call_function f arg s =
     (case function_objects s f of
        None \<Rightarrow> s
      | Some Resize \<Rightarrow> resize s
      | Some HandleThemeChange \<Rightarrow> handleThemeChange arg s
      | Some Animate \<Rightarrow> animate s)"

definition dispatch :: "string \<Rightarrow> string \<Rightarrow> particle_state \<Rightarrow> particle_state" where
  "dispatch ty arg s =
     foldl (\<lambda>acc f. call_function f arg acc) s
       (map snd (filter (\<lambda>l. fst l = ty) (listeners s)))"

datatype pb_event = FrameFires | WindowResize nat nat | ThemeChange string | ClockAdvance nat

fun pb_step :: "pb_event \<Rightarrow> particle_state \<Rightarrow> particle_state" where
  "pb_step FrameFires s =
     (case frame_requests s of
        [] \<Rightarrow> s
      | r # rest \<Rightarrow> call_function (snd r) [] (s\<lparr>frame_requests := rest\<rparr>))"
| "pb_step (WindowResize w h) s = dispatch ''resize'' [] (s\<lparr>innerWidth := w, innerHeight := h\<rparr>)"
| "pb_step (ThemeChange t) s = dispatch ''themechange'' t (s\<lparr>root_data_theme := Some t\<rparr>)"
| "pb_step (ClockAdvance d) s = s\<lparr>clock := clock s + real d\<rparr>"

fun pb_run :: "pb_event list \<Rightarrow> particle_state \<Rightarrow> particle_state" where
  "pb_run [] s = s"
| "pb_run (a # as) s = pb_run as (pb_step a s)"

text \<open>
  For the examples: default options with two particles, an 800 by 600 window, and an
  engine whose \<open>Math.sin\<close> and \<open>Math.sqrt\<close> round correctly.
\<close>

definition options0 :: pb_options where
  "options0 = \<lparr>particleCount = 2, particleSize_min = 1, particleSize_max = 4,
     speed_min = - to_double 0.3, speed_max = to_double 0.3,
     opacity_min = to_double 0.15, opacity_max = to_double 0.4,
     colors = [''8, 145, 178'', ''139, 92, 246'', ''236, 72, 153'', ''34, 211, 238''],
     darkColors = [''34, 211, 238'', ''168, 85, 247'', ''244, 114, 182'', ''56, 189, 248''],
     fps = 30, connectParticles = False, color = None\<rparr>"

definition pb_page0 :: particle_state where
  "pb_page0 = \<lparr>has_canvas = True, ctx = False, canvas_width = 300, canvas_height = 150,
     surface = [], particles = [], options = options0, fpsInterval = None, then_ms = 0,
     animationId = None, time = None, draw_calls = 0, innerWidth = 800, innerHeight = 600,
     clock = 1000, frame_requests = [], last_request = 0, listeners = [],
     function_objects = (\<lambda>_. None), next_function = 0, root_data_theme = Some ''light'',
     console = [], random = (\<lambda>_. 1 / 2), random_calls = 0,
     Math_sin = (\<lambda>x. to_double (sin x)), Math_sqrt = (\<lambda>x. to_double (sqrt x))\<rparr>"

definition particles0 :: particle_state where
  "particles0 = new_ParticleBackground options0 pb_page0"

text \<open>
  An object made at time 1000 with 30 frames per second, when its first frame arrives at
  time 1100.
\<close>

definition throttle0 :: particle_state where
  "throttle0 = pb_page0\<lparr>fpsInterval := Some (js_div 1000 30), then_ms := 1000, clock := 1100\<rparr>"

section \<open>Fireflies\<close>

text \<open>
  A firefly is an element and the numbers that drive it. Of the element the model keeps
  the inline style: width and height in px, \<open>left\<close> in vw, \<open>top\<close> in vh, the opacity, and
  the box shadow (blur radius in px and opacity of its colour; None when not set). The
  fields \<open>x\<close>, \<open>y\<close> and \<open>size\<close> are named \<open>fx\<close>, \<open>fy\<close> and \<open>fsize\<close>. The state holds the
  fireflies, \<open>lastTime\<close>, the attribute \<open>data-theme\<close> of the root element, the number of
  frames requested, \<open>Math.random\<close>, and the engine's \<open>Math.sin\<close> and \<open>Math.pow\<close>
  (\<open>sin_of_engine\<close>, \<open>pow_of_engine\<close>).
\<close>

record firefly_style =
  style_width :: real
  style_height :: real
  style_left :: real
  style_top :: real
  style_opacity :: real
  style_boxShadow :: "(real \<times> real) option"

record firefly =
  el :: firefly_style
  fx :: real
  fy :: real
  fsize :: real
  dx :: real
  dy :: real
  phase :: real
  speed :: real

record fireflies_state =
  fireflies :: "firefly list"
  lastTime :: real
  html_data_theme :: "string option"
  frames_requested :: nat
  rnd :: "nat \<Rightarrow> real"
  rnd_calls :: nat
  sin_of_engine :: "real \<Rightarrow> real"
  pow_of_engine :: "real \<Rightarrow> real \<Rightarrow> real"

definition isDark :: "fireflies_state \<Rightarrow> bool" where
  "isDark s = (html_data_theme s = Some ''dark'')"

definition COUNT :: nat where
  "COUNT = 18"

definition random_between :: "real \<Rightarrow> real \<Rightarrow> fireflies_state \<Rightarrow> real \<times> fireflies_state" where
  "random_between lo hi s =
     (js_add (js_mul (rnd s (rnd_calls s)) (js_sub hi lo)) lo,
      s\<lparr>rnd_calls := Suc (rnd_calls s)\<rparr>)"

definition createFirefly :: "fireflies_state \<Rightarrow> firefly \<times> fireflies_state" where
  "createFirefly s =
     (let (size0, s1) = random_between 3 7 s;
          (x0, s2) = random_between 15 85 s1;
          (y0, s3) = random_between 10 80 s2;
          (dx0, s4) = random_between (- to_double 0.15) (to_double 0.15) s3;
          (dy0, s5) = random_between (- to_double 0.1) (to_double 0.08) s4;
          (phase0, s6) = random_between 0 (js_mul Math_PI 2) s5;
          (speed0, s7) = random_between (to_double 0.3) (to_double 0.8) s6
      in (\<lparr>el = \<lparr>style_width = size0, style_height = size0, style_left = x0, style_top = y0,
                 style_opacity = 0, style_boxShadow = None\<rparr>,
           fx = x0, fy = y0, fsize = size0, dx = dx0, dy = dy0, phase = phase0,
           speed = speed0\<rparr>, s7))"

fun push_fireflies :: "nat \<Rightarrow> fireflies_state \<Rightarrow> fireflies_state" where
  "push_fireflies 0 s = s"
| "push_fireflies (Suc n) s =
     (let (f, s1) = createFirefly s in push_fireflies n (s1\<lparr>fireflies := fireflies s1 @ [f]\<rparr>))"

definition fireflies_init :: "fireflies_state \<Rightarrow> fireflies_state" where
  "fireflies_init s =
     (let s1 = push_fireflies COUNT s in s1\<lparr>frames_requested := Suc (frames_requested s1)\<rparr>)"

text \<open>
  \<open>toFixed(3)\<close>: the multiple of 0.001 nearest to the double, the larger one on a tie. The
  result is a decimal string; the model keeps the number it spells.
\<close>

definition toFixed3 :: "real \<Rightarrow> real" where
  "toFixed3 g = of_int \<lfloor>g * 1000 + 1 / 2\<rfloor> / 1000"

text \<open>The body of the loop \<open>for (const f of fireflies)\<close> in \<open>animate\<close>.\<close>

definition animate_firefly :: "fireflies_state \<Rightarrow> bool \<Rightarrow> real \<Rightarrow> firefly \<Rightarrow> firefly" where
  "animate_firefly s dark dt f =
     (if dark then f\<lparr>el := (el f)\<lparr>style_opacity := 0\<rparr>\<rparr>
      else
        (let f1 = f\<lparr>fx := js_add (fx f) (js_mul (js_mul (dx f) dt) 8)\<rparr>;
             f2 = f1\<lparr>fy := js_add (fy f1) (js_mul (js_mul (dy f1) dt) 8)\<rparr>;
             f3 = (if fx f2 < - 5 then f2\<lparr>fx := 105\<rparr> else f2);
             f4 = (if fx f3 > 105 then f3\<lparr>fx := - 5\<rparr> else f3);
             f5 = (if fy f4 < - 5 then f4\<lparr>fy := 105\<rparr> else f4);
             f6 = (if fy f5 > 105 then f5\<lparr>fy := - 5\<rparr> else f5);
             f7 = f6\<lparr>phase := js_add (phase f6) (js_mul (speed f6) dt)\<rparr>;
             glow = js_add (to_double 0.15)
                      (js_mul (to_double 0.55) (pow_of_engine s (sin_of_engine s (phase f7)) 2))
         in f7\<lparr>el := (el f7)\<lparr>style_left := fx f7, style_top := fy f7,
                              style_opacity := toFixed3 glow,
                              style_boxShadow :=
                                Some (js_mul (fsize f7) 2,
                                      toFixed3 (js_mul glow (to_double 0.6)))\<rparr>\<rparr>))"

definition fireflies_animate :: "real \<Rightarrow> fireflies_state \<Rightarrow> fireflies_state" where
  "fireflies_animate t s =
     (let s1 = (if lastTime s = 0 then s\<lparr>lastTime := t\<rparr> else s);
          dt = js_div (js_sub t (lastTime s1)) 1000;
          s2 = s1\<lparr>lastTime := t\<rparr>;
          dark = isDark s2;
          s3 = s2\<lparr>fireflies := map (animate_firefly s2 dark dt) (fireflies s2)\<rparr>
      in s3\<lparr>frames_requested := Suc (frames_requested s3)\<rparr>)"

text \<open>
  For the examples: one firefly that still glows, in a page that has turned dark, with an
  engine whose \<open>Math.sin\<close> and \<open>Math.pow\<close> (for whole exponents) round correctly.
\<close>

definition firefly0 :: firefly where
  "firefly0 = \<lparr>el = \<lparr>style_width = 5, style_height = 5, style_left = 50, style_top = 40,
                      style_opacity = 0.7, style_boxShadow = Some (10, 0.42)\<rparr>,
               fx = 50, fy = 40, fsize = 5, dx = 0.125, dy = - 0.0625, phase = 1, speed = 0.5\<rparr>"

definition fireflies0 :: fireflies_state where
  "fireflies0 = \<lparr>fireflies = [firefly0], lastTime = 16, html_data_theme = Some ''dark'',
                 frames_requested = 1, rnd = (\<lambda>_. 1 / 2), rnd_calls = 7,
                 sin_of_engine = (\<lambda>x. to_double (sin x)),
                 pow_of_engine = (\<lambda>x y. to_double (x ^ nat \<lfloor>y\<rfloor>))\<rparr>"

section \<open>Carousels (App.initCarousels)\<close>

text \<open>
  Of a carousel the model keeps which slides and which dots carry the class \<open>active\<close>,
  the index \<open>currentIndex\<close> of the closure and whether the two buttons exist. The markup
  gives the slides' classes and the dots already inside \<open>.carousel-dots\<close> (None when that
  container is missing).
\<close>

record carousel_markup =
  slide_active :: "bool list"
  dots_container :: "bool list option"
  has_prevBtn :: bool
  has_nextBtn :: bool

record carousel =
  slides :: "bool list"
  dots :: "bool list"
  currentIndex :: int
  prevBtn :: bool
  nextBtn :: bool

datatype carousel_init = NoSlides | InitThrew | Ready carousel

text \<open>
  With no slides the callback returns at once. Without the container the first
  \<open>dotsContainer.appendChild\<close> throws a TypeError. Otherwise one dot per slide is appended,
  the first of them active, and \<open>dots\<close> is every dot of the container.
\<close>

definition initCarousel :: "carousel_markup \<Rightarrow> carousel_init" where
  "initCarousel m =
     (if length (slide_active m) = 0 then NoSlides
      else (case dots_container m of
              None \<Rightarrow> InitThrew
            | Some existing \<Rightarrow>
                Ready \<lparr>slides = slide_active m,
                       dots = existing @ map (\<lambda>index. index = 0) [0 ..< length (slide_active m)],
                       currentIndex = 0,
                       prevBtn = has_prevBtn m,
                       nextBtn = has_nextBtn m\<rparr>))"

text \<open>The integer remainder \<open>a % b\<close> of JavaScript for \<open>b\<close> other than 0: it has the sign of \<open>a\<close>.\<close>

definition js_rem :: "int \<Rightarrow> int \<Rightarrow> int" where
  "js_rem a b = sgn a * (\<bar>a\<bar> mod \<bar>b\<bar>)"

text \<open>
  \<open>list[i].classList.add('active')\<close> and \<open>remove\<close>: None is the TypeError thrown when
  \<open>list[i]\<close> is undefined.
\<close>

definition classList_set :: "bool \<Rightarrow> int \<Rightarrow> bool list \<Rightarrow> bool list option" where
  "classList_set v i xs = (if 0 \<le> i \<and> i < int (length xs) then Some (xs[nat i := v]) else None)"

definition goToSlide :: "int \<Rightarrow> carousel \<Rightarrow> carousel option" where
  "goToSlide index c =
     (case classList_set False (currentIndex c) (slides c) of
        None \<Rightarrow> None
      | Some slides1 \<Rightarrow>
     (case classList_set False (currentIndex c) (dots c) of
        None \<Rightarrow> None
      | Some dots1 \<Rightarrow>
     (let new_index = js_rem (index + int (length (slides c))) (int (length (slides c))) in
     (case classList_set True new_index slides1 of
        None \<Rightarrow> None
      | Some slides2 \<Rightarrow>
     (case classList_set True new_index dots1 of
        None \<Rightarrow> None
      | Some dots2 \<Rightarrow>
          Some (c\<lparr>slides := slides2, dots := dots2, currentIndex := new_index\<rparr>))))))"

definition nextSlide :: "carousel \<Rightarrow> carousel option" where
  "nextSlide c = goToSlide (currentIndex c + 1) c"

definition prevSlide :: "carousel \<Rightarrow> carousel option" where
  "prevSlide c = goToSlide (currentIndex c - 1) c"

text \<open>
  The listeners: a click on a button that exists, a click on the dot made for slide
  \<open>k\<close>, and a swipe by \<open>diff = touchStartX - touchEndX\<close>.
\<close>

datatype carousel_op = NextClick | PrevClick | DotClick nat | Swipe int

fun carousel_step :: "carousel_op \<Rightarrow> carousel \<Rightarrow> carousel option" where
  "carousel_step NextClick c = (if nextBtn c then nextSlide c else Some c)"
| "carousel_step PrevClick c = (if prevBtn c then prevSlide c else Some c)"
| "carousel_step (DotClick k) c = (if k < length (slides c) then goToSlide (int k) c else Some c)"
| "carousel_step (Swipe diff) c =
     (if \<bar>diff\<bar> > 50 then (if diff > 0 then nextSlide c else prevSlide c) else Some c)"

fun carousel_run :: "carousel_op list \<Rightarrow> carousel \<Rightarrow> carousel option" where
  "carousel_run [] c = Some c"
| "carousel_run (a # as) c =
     (case carousel_step a c of None \<Rightarrow> None | Some c1 \<Rightarrow> carousel_run as c1)"

definition count_active :: "bool list \<Rightarrow> nat" where
  "count_active xs = length (filter (\<lambda>b. b) xs)"

text \<open>
  For the examples: three slides with the first one active, and three slides whose markup
  marks the second one active.
\<close>

definition markup0 :: carousel_markup where
  "markup0 = \<lparr>slide_active = [True, False, False], dots_container = Some [],
              has_prevBtn = True, has_nextBtn = True\<rparr>"

definition carousel0 :: carousel where
  "carousel0 = \<lparr>slides = [True, False, False], dots = [True, False, False], currentIndex = 0,
                prevBtn = True, nextBtn = True\<rparr>"

definition markup1 :: carousel_markup where
  "markup1 = \<lparr>slide_active = [False, True, False], dots_container = Some [],
              has_prevBtn = True, has_nextBtn = True\<rparr>"

definition carousel1 :: carousel where
  "carousel1 = \<lparr>slides = [False, True, False], dots = [True, False, False], currentIndex = 0,
                prevBtn = True, nextBtn = True\<rparr>"

section \<open>Invariants used in the proofs\<close>

text \<open>After the constructor the stored theme is the current one.\<close>

definition stored_is_current :: "theme_state \<Rightarrow> bool" where
  "stored_is_current s = (localStorage_theme s = Some (theme s))"

text \<open>A particle for the examples, about to leave the canvas of \<open>pb_page0\<close> at two edges.\<close>

definition particle0 :: particle where
  "particle0 = \<lparr>px = 299.875, py = 0.125, psize = 2, speedX = 0.25, speedY = - 0.25,
                 opacity = 0.25, colorIndex = 1, pulseOffset = 0\<rparr>"

text \<open>
  A particle whose exact sum \<open>x + speedX\<close> lies above the width 300 of that canvas while the
  double sum is 300: \<open>speedX\<close> is the double \<open>0.25 + 2^-54\<close>.
\<close>

definition particle1 :: particle where
  "particle1 = \<lparr>px = 299.75, py = 75, psize = 2, speedX = 0.25 + 1 / 2 ^ 54, speedY = 0,
                 opacity = 0.25, colorIndex = 1, pulseOffset = 0\<rparr>"

text \<open>
  The index of a carousel points at a slide and there is a dot for every slide; the
  markers of slides and dots sit at the current index and nowhere else.
\<close>

definition index_ok :: "carousel \<Rightarrow> bool" where
  "index_ok c = (0 \<le> currentIndex c \<and> currentIndex c < int (length (slides c)) \<and>
                 length (slides c) \<le> length (dots c))"

definition one_active :: "nat \<Rightarrow> nat \<Rightarrow> bool list" where
  "one_active n i = (replicate n False)[i := True]"

definition markers_ok :: "carousel \<Rightarrow> bool" where
  "markers_ok c = (slides c = one_active (length (slides c)) (nat (currentIndex c)) \<and>
                   dots c = one_active (length (slides c)) (nat (currentIndex c)))"

text \<open>
  The particle field as the browser and its owner drive it, and two invariants: at most
  one frame request is pending and it is the one \<open>animationId\<close> names, while every
  listener is older than the next function \<open>bind\<close> will make and is not the frame
  callback; and, after \<open>destroy\<close>, no frame request is pending at all.
\<close>

datatype pb_action = Browser pb_event | CallPause | CallResume

fun pb_act :: "pb_action \<Rightarrow> particle_state \<Rightarrow> particle_state" where
  "pb_act (Browser e) s = pb_step e s"
| "pb_act CallPause s = pause s"
| "pb_act CallResume s = resume s"

fun pb_acts :: "pb_action list \<Rightarrow> particle_state \<Rightarrow> particle_state" where
  "pb_acts [] s = s"
| "pb_acts (a # as) s = pb_acts as (pb_act a s)"

definition well_scheduled :: "particle_state \<Rightarrow> bool" where
  "well_scheduled s =
     (length (frame_requests s) \<le> 1 \<and>
      (\<forall>r \<in> set (frame_requests s). animationId s = Some (fst r) \<and> fst r \<noteq> 0) \<and>
      (\<forall>l \<in> set (listeners s).
         snd l < next_function s \<and> function_objects s (snd l) \<noteq> Some Animate))"

definition quiescent :: "particle_state \<Rightarrow> bool" where
  "quiescent s =
     (frame_requests s = [] \<and>
      (\<forall>l \<in> set (listeners s). function_objects s (snd l) \<noteq> Some Animate))"

section \<open>JavaScript numbers: results\<close>

lemmas double_eval = to_double_def ulp_def pow2_def round_half_even_def js_add_def js_sub_def
  js_mul_def js_div_def binary_exponent.simps

text \<open>
  The literal \<open>0.1\<close> is the double just above one tenth, and \<open>3 * 0.1\<close> is the double that
  prints as \<open>0.30000000000000004\<close>.
\<close>

lemma to_double_tenth: "to_double 0.1 = 3602879701896397 / 36028797018963968"
  by (simp add: double_eval)

lemma three_tenths: "js_mul 3 (to_double 0.1) = 5404319552844596 / 18014398509481984"
  by (simp add: double_eval)

lemma three_tenths_decimal:
  "0.30000000000000004 < js_mul 3 (to_double 0.1) \<and>
   js_mul 3 (to_double 0.1) < 0.30000000000000005"
  unfolding three_tenths by simp

section \<open>Theme switcher: results\<close>

lemma applyTheme_fields:
  "theme (applyTheme t s) = t"
  "localStorage_theme (applyTheme t s) = Some t"
  "data_theme (applyTheme t s) = Some t"
  "dispatched (applyTheme t s) = dispatched s @ [t]"
  "console_error (applyTheme t s) = console_error s"
  "prefers_dark (applyTheme t s) = prefers_dark s"
  "watching (applyTheme t s) = watching s"
  by (simp_all add: applyTheme_def updateToggleUI_def Let_def)

lemmas theme_defs = new_ThemeSwitcher_def init_theme_def watchSystemTheme_def setupToggle_def
  applyTheme_def updateToggleUI_def truthy_def getStoredTheme_def getPreferredTheme_def page0_def
  resetToSystemPreference_def system_theme_change_def setTheme_def getCurrentTheme_def
  toggleTheme_def Let_def

text \<open>
  \<open>resetToSystemPreference\<close> removes the key and then calls \<open>applyTheme\<close>, which stores the
  theme it applies: whatever the state, the key ends up holding the OS preference.
\<close>

lemma resetToSystemPreference_fields:
  "localStorage_theme (resetToSystemPreference s) = Some (getPreferredTheme s)"
  "theme (resetToSystemPreference s) = getPreferredTheme s"
  by (simp_all add: resetToSystemPreference_def applyTheme_fields getPreferredTheme_def Let_def)

text \<open>
  Claim C1: after \<open>resetToSystemPreference()\<close> the persisted override is absent, the current
  theme is the one derived from the OS signal, and later changes of the OS preference are
  followed. The code does not do this. On a page with a stored dark theme and an OS that
  prefers light, the call leaves the current theme light, as claimed, but the key holds
  \<open>light\<close> afterwards, and when the OS then switches to dark the watcher finds a stored
  theme and the current theme stays light.
\<close>

theorem resetToSystemPreference_writes_key_back:
  "localStorage_theme (new_ThemeSwitcher page0) = Some ''dark'' \<and>
   theme (resetToSystemPreference (new_ThemeSwitcher page0)) = ''light'' \<and>
   localStorage_theme (resetToSystemPreference (new_ThemeSwitcher page0)) = Some ''light'' \<and>
   watching (resetToSystemPreference (new_ThemeSwitcher page0)) \<and>
   theme (system_theme_change True (resetToSystemPreference (new_ThemeSwitcher page0))) = ''light''"
  by (simp add: theme_defs)

text \<open>
  Claim C2: for every theme value \<open>v\<close> among light and dark, \<open>set(v)\<close> followed by
  \<open>getCurrent()\<close> returns \<open>v\<close>, and the call of \<open>set(v)\<close> dispatches exactly one theme-change
  notification, which carries \<open>v\<close>: the list of dispatched notifications grows by the one
  entry \<open>v\<close>.
\<close>

theorem setTheme_then_getCurrentTheme:
  assumes "v = ''light'' \<or> v = ''dark''"
  shows "getCurrentTheme (setTheme (JSString v) s) = v \<and>
         dispatched (setTheme (JSString v) s) = dispatched s @ [v]"
  using assms by (auto simp add: setTheme_def getCurrentTheme_def applyTheme_fields)

theorem setTheme_then_getCurrentTheme_witness:
  "(''light'' = ''light'' \<or> ''light'' = ''dark'') \<and>
   getCurrentTheme (new_ThemeSwitcher page0) = ''dark'' \<and>
   dispatched (new_ThemeSwitcher page0) = [''dark''] \<and>
   getCurrentTheme (setTheme (JSString ''light'') (new_ThemeSwitcher page0)) = ''light'' \<and>
   dispatched (setTheme (JSString ''light'') (new_ThemeSwitcher page0)) = [''dark'', ''light'']"
  using setTheme_then_getCurrentTheme [of "''light''" "new_ThemeSwitcher page0"]
  by (simp add: theme_defs)

text \<open>
  Claim C3: for every value \<open>v\<close> other than light and dark (a string or not), \<open>set(v)\<close> logs
  an error and changes nothing else: the current theme, the marker attribute of the root
  element and the persisted value are as before, and no notification is dispatched.
\<close>

theorem setTheme_invalid_rejected:
  assumes "v \<noteq> JSString ''light''" and "v \<noteq> JSString ''dark''"
  shows "setTheme v s = s\<lparr>console_error := console_error s @ [invalid_theme_message]\<rparr> \<and>
         theme (setTheme v s) = theme s \<and>
         data_theme (setTheme v s) = data_theme s \<and>
         localStorage_theme (setTheme v s) = localStorage_theme s \<and>
         dispatched (setTheme v s) = dispatched s \<and>
         console_error (setTheme v s) = console_error s @ [invalid_theme_message]"
  using assms by (simp add: setTheme_def)

theorem setTheme_invalid_rejected_witness:
  "JSString ''blue'' \<noteq> JSString ''light'' \<and> JSString ''blue'' \<noteq> JSString ''dark'' \<and>
   theme (setTheme (JSString ''blue'') (new_ThemeSwitcher page0)) = ''dark'' \<and>
   data_theme (setTheme (JSString ''blue'') (new_ThemeSwitcher page0)) = Some ''dark'' \<and>
   localStorage_theme (setTheme (JSString ''blue'') (new_ThemeSwitcher page0)) = Some ''dark'' \<and>
   dispatched (setTheme (JSString ''blue'') (new_ThemeSwitcher page0)) = [''dark''] \<and>
   console_error (setTheme (JSString ''blue'') (new_ThemeSwitcher page0)) = [invalid_theme_message]"
  using setTheme_invalid_rejected [of "JSString ''blue''" "new_ThemeSwitcher page0"]
  by (simp add: theme_defs)

text \<open>
  Every state the object reaches has the stored theme equal to the current one: the
  constructor applies a theme, and every method and handler either applies one or leaves
  both alone.
\<close>

lemma stored_is_current_new: "stored_is_current (new_ThemeSwitcher page)"
  by (simp add: stored_is_current_def new_ThemeSwitcher_def init_theme_def watchSystemTheme_def
      setupToggle_def applyTheme_fields)

lemma stored_is_current_applyTheme: "stored_is_current (applyTheme t s)"
  by (simp add: stored_is_current_def applyTheme_fields)

lemma stored_is_current_step:
  assumes "stored_is_current s"
  shows "stored_is_current (theme_step a s)"
proof (cases a)
  case (SetTheme v)
  with assms show ?thesis
    by (simp add: setTheme_def stored_is_current_applyTheme) (simp add: stored_is_current_def)
next
  case ToggleTheme
  then show ?thesis by (simp add: toggleTheme_def stored_is_current_applyTheme)
next
  case ResetToSystemPreference
  then show ?thesis by (simp add: resetToSystemPreference_def Let_def stored_is_current_applyTheme)
next
  case ToggleClick
  with assms show ?thesis
    by (simp add: toggle_click_def Let_def stored_is_current_def applyTheme_fields)
next
  case ScaleResetFires
  with assms show ?thesis
    by (simp add: scale_reset_fires_def stored_is_current_def)
next
  case (SystemThemeChange m)
  with assms show ?thesis
    by (simp add: system_theme_change_def Let_def stored_is_current_applyTheme)
       (simp add: stored_is_current_def)
qed

lemma stored_is_current_run:
  "stored_is_current s \<Longrightarrow> stored_is_current (theme_run ops s)"
  by (induction ops arbitrary: s) (simp_all add: stored_is_current_step)

lemma toggleTheme_twice_stored:
  assumes "stored_is_current s" and "theme s = ''light'' \<or> theme s = ''dark''"
  shows "theme (toggleTheme (toggleTheme s)) = theme s \<and>
         localStorage_theme (toggleTheme (toggleTheme s)) = localStorage_theme s"
  using assms by (auto simp add: toggleTheme_def applyTheme_fields stored_is_current_def)

text \<open>
  Claim C8: in every state the theme switcher reaches from its constructor by calls of
  its methods and handlers, if the theme is light or dark then \<open>toggle()\<close> applied twice
  brings the current theme and the persisted value back to what they were.
\<close>

theorem toggleTheme_twice:
  assumes "s = theme_run ops (new_ThemeSwitcher page)"
      and "theme s = ''light'' \<or> theme s = ''dark''"
  shows "theme (toggleTheme (toggleTheme s)) = theme s \<and>
         localStorage_theme (toggleTheme (toggleTheme s)) = localStorage_theme s"
  using assms toggleTheme_twice_stored stored_is_current_run stored_is_current_new by blast

theorem toggleTheme_twice_witness:
  "theme (theme_run [ToggleTheme, SetTheme JSNull] (new_ThemeSwitcher page0)) = ''light'' \<and>
   localStorage_theme (theme_run [ToggleTheme, SetTheme JSNull] (new_ThemeSwitcher page0))
     = Some ''light'' \<and>
   theme (toggleTheme (theme_run [ToggleTheme, SetTheme JSNull] (new_ThemeSwitcher page0)))
     = ''dark'' \<and>
   theme (toggleTheme (toggleTheme
     (theme_run [ToggleTheme, SetTheme JSNull] (new_ThemeSwitcher page0)))) = ''light'' \<and>
   localStorage_theme (toggleTheme (toggleTheme
     (theme_run [ToggleTheme, SetTheme JSNull] (new_ThemeSwitcher page0)))) = Some ''light''"
  using toggleTheme_twice [of "theme_run [ToggleTheme, SetTheme JSNull] (new_ThemeSwitcher page0)"
      "[ToggleTheme, SetTheme JSNull]" page0]
  by (simp add: theme_defs)

section \<open>Scroll animations: results\<close>

lemma indexOf_nonneg_iff: "indexOf xs a \<ge> 0 \<longleftrightarrow> a \<in> set xs"
  by (induction xs) (auto simp add: Let_def)

lemma indexOf_nth: "distinct xs \<Longrightarrow> i < length xs \<Longrightarrow> indexOf xs (xs ! i) = int i"
proof (induction xs arbitrary: i)
  case Nil
  then show ?case by simp
next
  case (Cons b bs)
  show ?case
  proof (cases i)
    case 0
    then show ?thesis by simp
  next
    case (Suc j)
    with Cons.prems have j: "j < length bs" and d: "distinct bs" and nb: "b \<notin> set bs" by auto
    from j nb have "bs ! j \<noteq> b" by (metis nth_mem)
    moreover have "indexOf bs (bs ! j) = int j" using Cons.IH d j by simp
    ultimately show ?thesis using Suc by (simp add: Let_def)
  qed
qed

lemma path_to_in_subtree:
  "path_to d e = Some p \<Longrightarrow> set p \<subseteq> set (subtree d)"
  "path_to_forest ds e = Some p \<Longrightarrow> set p \<subseteq> set (forest ds)"
  by (induction d e and ds e arbitrary: p and p rule: path_to_path_to_forest.induct)
     (auto split: if_splits option.splits)

lemma subtree_distinct:
  "p \<in> set (subtree d) \<Longrightarrow> distinct (map eid (subtree d)) \<Longrightarrow> distinct (map eid (subtree p))"
  "p \<in> set (forest ds) \<Longrightarrow> distinct (map eid (forest ds)) \<Longrightarrow> distinct (map eid (subtree p))"
  by (induction d and ds rule: subtree_forest.induct) auto

lemma closest_stagger_in_subtree:
  assumes "closest_stagger doc e = Some p"
  shows "p \<in> set (subtree doc)"
proof -
  from assms obtain pth rest where pth: "path_to doc e = Some pth"
    and f: "filter data_stagger (rev pth) = p # rest"
    by (auto simp add: closest_stagger_def split: option.splits list.splits)
  have "p \<in> set (filter data_stagger (rev pth))" unfolding f by simp
  then have "p \<in> set pth" by simp
  with path_to_in_subtree(1)[OF pth] show ?thesis by blast
qed

lemma group_distinct:
  assumes "distinct (map eid (subtree doc))" and "closest_stagger doc e = Some p"
  shows "distinct (querySelectorAll_animate p)"
proof -
  have "distinct (map eid (subtree p))"
    using subtree_distinct(1) closest_stagger_in_subtree[OF assms(2)] assms(1) by blast
  then have "distinct (map eid (forest (children p)))" by (cases p) simp
  then show ?thesis
    unfolding querySelectorAll_animate_def by (rule distinct_map_filter)
qed

lemma animateElement_fields:
  "is_visible (animateElement e s) = insert e (is_visible s)"
  "opt_once (animateElement e s) = opt_once s"
  "observer (animateElement e s) = observer s"
  "document (animateElement e s) = document s"
  by (simp_all add: animateElement_def Let_def split: option.splits)

text \<open>
  Claim C7, as amended: in a document whose elements are distinct, take a stagger group:
  an element \<open>parent\<close> with its reveal elements \<open>querySelectorAll_animate parent\<close>, \<open>k\<close> of
  them. For every \<open>i\<close> below \<open>k\<close>, if the closest \<open>data-stagger\<close> element of the \<open>i\<close>-th
  element of the group is \<open>parent\<close> (no group lies in between), then when that element is
  marked visible its transition delay is set to \<open>i\<close> times the increment 0.1, the product
  being the double \<open>i * 0.1\<close> of the source.
\<close>

theorem stagger_delay:
  assumes "distinct (map eid (subtree (document s)))"
      and "closest_stagger (document s) (querySelectorAll_animate parent ! i) = Some parent"
      and "i < length (querySelectorAll_animate parent)"
  shows "transitionDelay (animateElement (querySelectorAll_animate parent ! i) s)
           (querySelectorAll_animate parent ! i) = Some (js_mul (real i) (to_double 0.1)) \<and>
         querySelectorAll_animate parent ! i \<in>
           is_visible (animateElement (querySelectorAll_animate parent ! i) s)"
proof -
  have "distinct (querySelectorAll_animate parent)"
    using group_distinct assms(1,2) by blast
  then have "indexOf (querySelectorAll_animate parent) (querySelectorAll_animate parent ! i) = int i"
    using assms(3) by (rule indexOf_nth)
  then show ?thesis
    using assms(2) by (simp add: animateElement_def Let_def)
qed

lemmas scroll_defs = scroll0_def scroll1_def scroll_page0_def doc0_def group0_def doc1_def group1_def
  new_ScrollAnimations_def init_scroll_def
  observeElements_def createObserver_def document_querySelectorAll_animate_def
  querySelectorAll_animate_def closest_stagger_def animateElement_def observer_observe_def
  getAttribute_data_animate_def truthy_def delay_reset_fires_def Let_def

theorem stagger_delay_witness:
  "distinct (map eid (subtree (document scroll1))) \<and>
   querySelectorAll_animate group1 = [2, 4, 5, 6] \<and>
   closest_stagger (document scroll1) 6 = Some group1 \<and>
   transitionDelay scroll1 6 = None \<and>
   transitionDelay (animateElement 6 scroll1) 6 = Some (5404319552844596 / 18014398509481984) \<and>
   6 \<in> is_visible (animateElement 6 scroll1)"
proof -
  have ids: "distinct (map eid (subtree (document scroll1)))"
    by (simp add: scroll_defs)
  have grp: "querySelectorAll_animate group1 = [2, 4, 5, 6]"
    by (simp add: scroll_defs)
  have fourth: "querySelectorAll_animate group1 ! 3 = 6"
    unfolding grp by simp
  have near: "closest_stagger (document scroll1) (querySelectorAll_animate group1 ! 3) = Some group1"
    unfolding fourth by (simp add: scroll_defs)
  have len: "3 < length (querySelectorAll_animate group1)"
    unfolding grp by simp
  have before: "transitionDelay scroll1 6 = None"
    by (simp add: scroll_defs)
  from stagger_delay [OF ids near len] ids grp near before show ?thesis
    unfolding fourth by (simp add: three_tenths)
qed

text \<open>
  Claim C7 as stated, for every element of every group, fails where a stagger group lies
  inside another: an element is given the index it has among the reveal elements of its
  closest \<open>data-stagger\<close> element. In \<open>doc1\<close> the outer group has the reveal elements 2, 4, 5
  and 6; element 4, at index 1 of that group, is the first of the inner group and gets the
  delay 0, not \<open>1 * 0.1\<close>.
\<close>

theorem stagger_delay_nested_group:
  "data_stagger group1 \<and>
   querySelectorAll_animate group1 = [2, 4, 5, 6] \<and>
   querySelectorAll_animate group1 ! 1 = 4 \<and>
   transitionDelay (animateElement 4 scroll1) 4 = Some 0 \<and>
   js_mul 1 (to_double 0.1) = 3602879701896397 / 36028797018963968 \<and>
   transitionDelay (animateElement 4 scroll1) 4 \<noteq> Some (js_mul 1 (to_double 0.1))"
proof -
  have "transitionDelay (animateElement 4 scroll1) 4 = Some (js_mul 0 (to_double 0.1))"
    by (simp add: scroll_defs)
  moreover have "js_mul 0 (to_double 0.1) = 0"
    by (simp add: js_mul_def to_double_def)
  moreover have "js_mul 1 (to_double 0.1) = 3602879701896397 / 36028797018963968"
    by (simp add: double_eval)
  moreover have "data_stagger group1" "querySelectorAll_animate group1 = [2, 4, 5, 6]"
    by (simp_all add: scroll_defs)
  ultimately show ?thesis by simp
qed

lemma handle_entry_once:
  assumes "opt_once s"
  shows "opt_once (state_of (handle_entry entry s))"
    and "is_visible s \<subseteq> is_visible (state_of (handle_entry entry s))"
    and "is_visible (state_of (handle_entry entry s)) \<subseteq> is_visible s \<union> {t. entry = (t, True)}"
  using assms
  by (cases entry; auto simp add: handle_entry_def animateElement_fields Let_def split: option.splits)+

lemma handle_entry_once_live:
  assumes "opt_once s" and "observer s = Some obs"
  shows "handle_entry (t, True) s =
           Returned ((animateElement t s)\<lparr>observer := Some (removeAll t obs)\<rparr>)"
    and "handle_entry (t, False) s = Returned s"
  using assms by (simp_all add: handle_entry_def animateElement_fields Let_def)

lemma handleIntersection_once:
  "opt_once s \<Longrightarrow>
     opt_once (state_of (handleIntersection entries s)) \<and>
     is_visible s \<subseteq> is_visible (state_of (handleIntersection entries s)) \<and>
     is_visible (state_of (handleIntersection entries s)) \<subseteq> is_visible s \<union> {t. (t, True) \<in> set entries}"
  unfolding handleIntersection_def
proof (induction entries arbitrary: s)
  case Nil
  then show ?case by simp
next
  case (Cons a as)
  note h = handle_entry_once[OF Cons.prems, of a]
  show ?case
  proof (cases "handle_entry a s")
    case (Returned s1)
    with h have o: "opt_once s1" and m: "is_visible s \<subseteq> is_visible s1"
      and u: "is_visible s1 \<subseteq> is_visible s \<union> {t. a = (t, True)}" by simp_all
    from Cons.IH[OF o] m u Returned show ?thesis by auto
  next
    case (Threw s1)
    with h show ?thesis by auto
  qed
qed

lemma handleIntersection_once_live:
  "opt_once s \<Longrightarrow> observer s \<noteq> None \<Longrightarrow> (e, True) \<in> set entries \<Longrightarrow>
     e \<in> is_visible (state_of (handleIntersection entries s))"
proof (induction entries arbitrary: s)
  case Nil
  then show ?case by simp
next
  case (Cons a as)
  obtain obs where obs: "observer s = Some obs" using Cons.prems(2) by auto
  obtain t b where a: "a = (t, b)" by (cases a)
  show ?case
  proof (cases b)
    case True
    let ?s1 = "(animateElement t s)\<lparr>observer := Some (removeAll t obs)\<rparr>"
    have step: "handleIntersection (a # as) s = handleIntersection as ?s1"
      using handle_entry_once_live(1)[OF Cons.prems(1) obs, of t] a True
      by (simp add: handleIntersection_def)
    have o: "opt_once ?s1" "observer ?s1 \<noteq> None"
      using Cons.prems(1) by (simp_all add: animateElement_fields)
    show ?thesis
    proof (cases "e = t")
      case True
      have "e \<in> is_visible ?s1" using True by (simp add: animateElement_fields)
      then show ?thesis using handleIntersection_once[OF o(1), of as] step by auto
    next
      case False
      then have "(e, True) \<in> set as" using Cons.prems(3) a by auto
      then show ?thesis using Cons.IH[OF o] step by simp
    qed
  next
    case False
    have step: "handleIntersection (a # as) s = handleIntersection as s"
      using handle_entry_once_live(2)[OF Cons.prems(1) obs, of t] a False
      by (simp add: handleIntersection_def)
    have "(e, True) \<in> set as" using Cons.prems(3) a False by auto
    then show ?thesis using Cons.IH[OF Cons.prems(1,2)] step by simp
  qed
qed

lemma observe_each_fields:
  "opt_once (observe_each arr s) = opt_once s"
  "is_visible (observe_each arr s) = is_visible s"
  by (induction arr s rule: observe_each.induct) simp_all

lemma scroll_step_once:
  assumes "opt_once s"
  shows "opt_once (scroll_step a s)"
    and "is_visible s \<subseteq> is_visible (scroll_step a s)"
    and "\<not> crosses e a \<Longrightarrow> e \<in> is_visible (scroll_step a s) \<Longrightarrow> e \<in> is_visible s"
proof -
  show "opt_once (scroll_step a s)"
    using assms handleIntersection_once[OF assms]
    by (cases a) (simp_all add: delay_reset_fires_def observe_def observe_each_fields refresh_def
        observeElements_def destroy_scroll_def Let_def split: list.splits)
  show "is_visible s \<subseteq> is_visible (scroll_step a s)"
    using assms handleIntersection_once[OF assms]
    by (cases a) (simp_all add: delay_reset_fires_def observe_def observe_each_fields refresh_def
        observeElements_def destroy_scroll_def Let_def split: list.splits)
  show "\<not> crosses e a \<Longrightarrow> e \<in> is_visible (scroll_step a s) \<Longrightarrow> e \<in> is_visible s"
    using assms handleIntersection_once[OF assms]
    by (cases a) (auto simp add: crosses_def delay_reset_fires_def observe_def observe_each_fields
        refresh_def observeElements_def destroy_scroll_def Let_def split: list.splits if_splits)
qed

lemma scroll_run_append: "scroll_run (as @ bs) s = scroll_run bs (scroll_run as s)"
  by (induction as arbitrary: s) simp_all

lemma scroll_run_once:
  "opt_once s \<Longrightarrow> opt_once (scroll_run ops s) \<and> is_visible s \<subseteq> is_visible (scroll_run ops s)"
proof (induction ops arbitrary: s)
  case Nil
  then show ?case by simp
next
  case (Cons a as)
  from scroll_step_once(1,2)[OF Cons.prems, of a] Cons.IH[of "scroll_step a s"]
  show ?case by auto
qed

lemma scroll_run_quiet:
  "opt_once s \<Longrightarrow> \<forall>a \<in> set ops. \<not> crosses e a \<Longrightarrow> e \<notin> is_visible s \<Longrightarrow>
     e \<notin> is_visible (scroll_run ops s)"
proof (induction ops arbitrary: s)
  case Nil
  then show ?case by simp
next
  case (Cons a as)
  have "e \<notin> is_visible (scroll_step a s)"
    using scroll_step_once(3)[OF Cons.prems(1), of e a] Cons.prems(2,3) by auto
  then show ?case
    using Cons.IH[of "scroll_step a s"] scroll_step_once(1)[OF Cons.prems(1), of a] Cons.prems(2)
    by simp
qed

text \<open>
  Claim C4: in once mode the visible flag of a reveal target is monotonic. A target whose
  flag starts false keeps it false as long as no intersecting entry for it is delivered
  (\<open>before\<close>); the first intersecting entry, delivered while the observer exists, makes it
  true; and it is true after every later sequence of callbacks and method calls, among
  them entries that report the target outside the visible region. More generally the set
  of visible targets never shrinks along a run.
\<close>

theorem once_visible_flag_monotonic:
  assumes once: "opt_once s"
      and start: "e \<notin> is_visible s"
      and quiet: "\<forall>a \<in> set before. \<not> crosses e a"
      and live: "observer (scroll_run before s) \<noteq> None"
      and cross: "(e, True) \<in> set entries"
  shows "e \<notin> is_visible (scroll_run before s) \<and>
         e \<in> is_visible (scroll_run (before @ [Intersections entries]) s) \<and>
         e \<in> is_visible (scroll_run (before @ Intersections entries # later) s) \<and>
         is_visible (scroll_run ops1 s) \<subseteq> is_visible (scroll_run (ops1 @ ops2) s)"
proof -
  let ?s1 = "scroll_run before s"
  have o1: "opt_once ?s1" using scroll_run_once[OF once] by blast
  have a: "e \<notin> is_visible ?s1" using scroll_run_quiet[OF once quiet start] .
  have b: "e \<in> is_visible (scroll_step (Intersections entries) ?s1)"
    using handleIntersection_once_live[OF o1 live cross] by simp
  have o2: "opt_once (scroll_step (Intersections entries) ?s1)"
    using scroll_step_once(1)[OF o1] .
  have c: "e \<in> is_visible (scroll_run later (scroll_step (Intersections entries) ?s1))"
    using scroll_run_once[OF o2, of later] b by blast
  have d: "is_visible (scroll_run ops1 s) \<subseteq> is_visible (scroll_run (ops1 @ ops2) s)"
    using scroll_run_once[of "scroll_run ops1 s" ops2] scroll_run_once[OF once, of ops1]
    by (simp add: scroll_run_append)
  from a b c d show ?thesis by (simp add: scroll_run_append)
qed

lemmas scroll_defs2 = scroll_defs handleIntersection_def handle_entry_def crosses_def refresh_def

theorem once_visible_flag_monotonic_witness:
  "opt_once scroll0 \<and> 3 \<notin> is_visible scroll0 \<and>
   \<not> crosses 3 (Intersections [(3, False), (5, True)]) \<and> \<not> crosses 3 DelayResetFires \<and>
   observer (scroll_run [Intersections [(3, False), (5, True)], DelayResetFires] scroll0)
     = Some [2, 3, 4] \<and>
   3 \<notin> is_visible (scroll_run [Intersections [(3, False), (5, True)], DelayResetFires] scroll0) \<and>
   3 \<in> is_visible (scroll_run [Intersections [(3, False), (5, True)], DelayResetFires,
                                Intersections [(3, True)]] scroll0) \<and>
   3 \<in> is_visible (scroll_run [Intersections [(3, False), (5, True)], DelayResetFires,
                                Intersections [(3, True)], Intersections [(3, False)], Refresh,
                                Intersections [(3, False)]] scroll0)"
proof -
  have once: "opt_once scroll0" and start: "3 \<notin> is_visible scroll0"
    by (simp_all add: scroll_defs2)
  have q1: "\<not> crosses 3 (Intersections [(3, False), (5, True)])" and q2: "\<not> crosses 3 DelayResetFires"
    by (simp_all add: crosses_def)
  then have quiet: "\<forall>a \<in> set [Intersections [(3, False), (5, True)], DelayResetFires]. \<not> crosses 3 a"
    by simp
  have obs: "observer (scroll_run [Intersections [(3, False), (5, True)], DelayResetFires] scroll0)
     = Some [2, 3, 4]"
    by (simp add: scroll_defs2)
  then have live: "observer (scroll_run [Intersections [(3, False), (5, True)], DelayResetFires] scroll0)
     \<noteq> None"
    by simp
  have cross: "(3, True) \<in> set [(3, True)]" by simp
  from once_visible_flag_monotonic
    [where later = "[Intersections [(3, False)], Refresh, Intersections [(3, False)]]"
       and ?ops1.0 = "[]" and ?ops2.0 = "[]", OF once start quiet live cross]
    once start q1 q2 obs
  show ?thesis by simp
qed

section \<open>Particle background: results\<close>

lemma wrap_edges_bounds:
  "0 \<le> px (wrap_edges s p) \<and> px (wrap_edges s p) \<le> real (canvas_width s) \<and>
   0 \<le> py (wrap_edges s p) \<and> py (wrap_edges s p) \<le> real (canvas_height s)"
  by (simp add: wrap_edges_def Let_def)

lemma wrap_edges_resets:
  "px p > real (canvas_width s) \<Longrightarrow> px (wrap_edges s p) = 0"
  "px p < 0 \<Longrightarrow> px (wrap_edges s p) = real (canvas_width s)"
  "py p > real (canvas_height s) \<Longrightarrow> py (wrap_edges s p) = 0"
  "py p < 0 \<Longrightarrow> py (wrap_edges s p) = real (canvas_height s)"
  by (simp_all add: wrap_edges_def Let_def)

lemma updateParticle_wrap:
  "updateParticle s p =
     wrap_edges s (p\<lparr>px := js_add (px p) (speedX p), py := js_add (py p) (speedY p)\<rparr>)"
  by (simp add: updateParticle_def Let_def)

lemma updateParticle_canvas:
  assumes "canvas_width t = canvas_width s" and "canvas_height t = canvas_height s"
  shows "updateParticle t p = updateParticle s p"
  unfolding updateParticle_wrap wrap_edges_def assms ..

lemma drawConnections_fields:
  "particles (drawConnections s) = particles s"
  "canvas_width (drawConnections s) = canvas_width s"
  "canvas_height (drawConnections s) = canvas_height s"
  by (simp_all add: drawConnections_def)

lemma draw_particles:
  "particles (draw s) = map (updateParticle s) (particles s)"
  "canvas_width (draw s) = canvas_width s"
  "canvas_height (draw s) = canvas_height s"
proof -
  have c: "\<And>sf n t0 p. updateParticle (s\<lparr>surface := sf, draw_calls := n, time := t0\<rparr>) p
                    = updateParticle s p"
    by (rule updateParticle_canvas) simp_all
  show "particles (draw s) = map (updateParticle s) (particles s)"
    by (simp add: draw_def Let_def drawConnections_fields clearRect_def c)
  show "canvas_width (draw s) = canvas_width s" "canvas_height (draw s) = canvas_height s"
    by (simp_all add: draw_def Let_def drawConnections_fields clearRect_def)
qed

text \<open>
  Claim C5: in every update step of every particle, a coordinate that the step carries
  beyond the surface (above the width or the height) is reset to 0 and one that it carries
  below 0 is reset to the width or the height; so after the step the particle lies in
  \<open>[0, width] \<times> [0, height]\<close>, and so does every particle after a frame is drawn. The
  coordinate the step compares with the bounds is the one it has just computed, the
  double sum of the coordinate and the speed.
\<close>

theorem updateParticle_wraps_into_bounds:
  "(js_add (px p) (speedX p) > real (canvas_width s) \<longrightarrow> px (updateParticle s p) = 0) \<and>
   (js_add (px p) (speedX p) < 0 \<longrightarrow> px (updateParticle s p) = real (canvas_width s)) \<and>
   (js_add (py p) (speedY p) > real (canvas_height s) \<longrightarrow> py (updateParticle s p) = 0) \<and>
   (js_add (py p) (speedY p) < 0 \<longrightarrow> py (updateParticle s p) = real (canvas_height s)) \<and>
   0 \<le> px (updateParticle s p) \<and> px (updateParticle s p) \<le> real (canvas_width s) \<and>
   0 \<le> py (updateParticle s p) \<and> py (updateParticle s p) \<le> real (canvas_height s) \<and>
   (\<forall>q \<in> set (particles (draw s)).
      0 \<le> px q \<and> px q \<le> real (canvas_width (draw s)) \<and>
      0 \<le> py q \<and> py q \<le> real (canvas_height (draw s)))"
proof -
  let ?p2 = "p\<lparr>px := js_add (px p) (speedX p), py := js_add (py p) (speedY p)\<rparr>"
  have r: "(js_add (px p) (speedX p) > real (canvas_width s) \<longrightarrow> px (updateParticle s p) = 0) \<and>
   (js_add (px p) (speedX p) < 0 \<longrightarrow> px (updateParticle s p) = real (canvas_width s)) \<and>
   (js_add (py p) (speedY p) > real (canvas_height s) \<longrightarrow> py (updateParticle s p) = 0) \<and>
   (js_add (py p) (speedY p) < 0 \<longrightarrow> py (updateParticle s p) = real (canvas_height s))"
    unfolding updateParticle_wrap using wrap_edges_resets[where s=s and p="?p2"] by simp
  have b: "\<And>q. 0 \<le> px (updateParticle s q) \<and> px (updateParticle s q) \<le> real (canvas_width s) \<and>
   0 \<le> py (updateParticle s q) \<and> py (updateParticle s q) \<le> real (canvas_height s)"
    unfolding updateParticle_wrap by (rule wrap_edges_bounds)
  have d: "\<forall>q \<in> set (particles (draw s)).
      0 \<le> px q \<and> px q \<le> real (canvas_width (draw s)) \<and>
      0 \<le> py q \<and> py q \<le> real (canvas_height (draw s))"
    using b by (auto simp add: draw_particles)
  from r b[of p] d show ?thesis by blast
qed

theorem updateParticle_wraps_into_bounds_witness:
  "js_add (px particle0) (speedX particle0) = 300.125 \<and>
   real (canvas_width pb_page0) = 300 \<and>
   px (updateParticle pb_page0 particle0) = 0 \<and>
   js_add (py particle0) (speedY particle0) = - 0.125 \<and>
   py (updateParticle pb_page0 particle0) = 150 \<and>
   particles (draw (pb_page0\<lparr>particles := [particle0]\<rparr>)) = [particle0\<lparr>px := 0, py := 150\<rparr>]"
proof -
  have x: "js_add (px particle0) (speedX particle0) = 300.125"
    by (simp add: particle0_def double_eval)
  have y: "js_add (py particle0) (speedY particle0) = - 0.125"
    by (simp add: particle0_def double_eval)
  have w: "real (canvas_width pb_page0) = 300" "real (canvas_height pb_page0) = 150"
    by (simp_all add: pb_page0_def)
  have u: "updateParticle pb_page0 particle0 = particle0\<lparr>px := 0, py := 150\<rparr>"
    unfolding updateParticle_wrap x y wrap_edges_def w by (simp add: particle0_def)
  have d: "particles (draw (pb_page0\<lparr>particles := [particle0]\<rparr>))
             = [updateParticle pb_page0 particle0]"
    unfolding draw_particles
    by (simp add: updateParticle_canvas[where t="pb_page0\<lparr>particles := [particle0]\<rparr>" and s=pb_page0])
  from updateParticle_wraps_into_bounds [where p=particle0 and s=pb_page0] x y w u d
  show ?thesis by simp
qed

text \<open>
  Where the exact sum and the double sum fall on different sides of the width, the step
  follows the double: the particle \<open>particle1\<close> stays at the edge.
\<close>

lemma updateParticle_follows_the_double:
  "px particle1 + speedX particle1 > real (canvas_width pb_page0) \<and>
   js_add (px particle1) (speedX particle1) = 300 \<and>
   px (updateParticle pb_page0 particle1) = 300"
proof -
  have x: "js_add (px particle1) (speedX particle1) = 300"
    by (simp add: particle1_def double_eval)
  have y: "js_add (py particle1) (speedY particle1) = 75"
    by (simp add: particle1_def double_eval)
  have w: "real (canvas_width pb_page0) = 300" "real (canvas_height pb_page0) = 150"
    by (simp_all add: pb_page0_def)
  have u: "px (updateParticle pb_page0 particle1) = 300"
    unfolding updateParticle_wrap x y wrap_edges_def w by (simp add: particle1_def)
  have "px particle1 + speedX particle1 > real (canvas_width pb_page0)"
    unfolding w by (simp add: particle1_def)
  with x u show ?thesis by simp
qed

lemma new_particle_state:
  "snd (new_particle s) = s\<lparr>random_calls := random_calls s + 8\<rparr>"
  by (simp add: new_particle_def next_random_def Let_def split_def)

lemma push_particles_state:
  "\<exists>ps k. push_particles n s = s\<lparr>particles := ps, random_calls := k\<rparr>"
proof (induction n arbitrary: s)
  case 0
  have "s = s\<lparr>particles := particles s, random_calls := random_calls s\<rparr>" by simp
  then show ?case by (metis push_particles.simps(1))
next
  case (Suc n)
  obtain ps k where
    "push_particles n ((snd (new_particle s))\<lparr>particles := particles (snd (new_particle s)) @ [fst (new_particle s)]\<rparr>)
       = (snd (new_particle s))\<lparr>particles := particles (snd (new_particle s)) @ [fst (new_particle s)]\<rparr>
            \<lparr>particles := ps, random_calls := k\<rparr>"
    using Suc.IH by blast
  then have "push_particles (Suc n) s = s\<lparr>particles := ps, random_calls := k\<rparr>"
    by (simp add: split_def new_particle_state)
  then show ?case by blast
qed

lemma createParticles_state:
  "\<exists>ps k. createParticles s = s\<lparr>particles := ps, random_calls := k\<rparr>"
proof -
  obtain ps k where "push_particles (particleCount (options s)) (s\<lparr>particles := []\<rparr>)
      = s\<lparr>particles := []\<rparr>\<lparr>particles := ps, random_calls := k\<rparr>"
    using push_particles_state by blast
  then have "createParticles s = s\<lparr>particles := ps, random_calls := k\<rparr>"
    by (simp add: createParticles_def)
  then show ?thesis by blast
qed

lemma resize_state:
  "\<exists>ps k. resize s = s\<lparr>canvas_width := innerWidth s, canvas_height := innerHeight s,
                          surface := [], particles := ps, random_calls := k\<rparr>"
proof (cases "length (particles s) > 0")
  case True
  let ?s1 = "s\<lparr>canvas_width := innerWidth s, canvas_height := innerHeight s, surface := []\<rparr>"
  obtain ps k where "createParticles ?s1 = ?s1\<lparr>particles := ps, random_calls := k\<rparr>"
    using createParticles_state by blast
  then have "resize s = ?s1\<lparr>particles := ps, random_calls := k\<rparr>"
    using True by (simp add: resize_def Let_def)
  then show ?thesis by blast
next
  case False
  have "resize s = s\<lparr>canvas_width := innerWidth s, canvas_height := innerHeight s,
                          surface := [], particles := particles s, random_calls := random_calls s\<rparr>"
    using False by (simp add: resize_def Let_def)
  then show ?thesis by blast
qed

lemma draw_state:
  "\<exists>sf tm ps. draw s = s\<lparr>surface := sf, draw_calls := Suc (draw_calls s), time := tm,
                            particles := ps\<rparr>"
proof -
  have "draw s = s\<lparr>surface := surface (draw s), draw_calls := Suc (draw_calls s),
                    time := time (draw s), particles := particles (draw s)\<rparr>"
    by (simp add: draw_def Let_def clearRect_def drawConnections_def)
  then show ?thesis by blast
qed


lemma resize_frame:
  "frame_requests (resize s) = frame_requests s"
  "listeners (resize s) = listeners s"
  "function_objects (resize s) = function_objects s"
  "next_function (resize s) = next_function s"
  "animationId (resize s) = animationId s"
  "draw_calls (resize s) = draw_calls s"
  "ctx (resize s) = ctx s"
  "last_request (resize s) = last_request s"
proof -
  obtain ps k where r: "resize s = s\<lparr>canvas_width := innerWidth s, canvas_height := innerHeight s,
                          surface := [], particles := ps, random_calls := k\<rparr>"
    using resize_state by blast
  show "frame_requests (resize s) = frame_requests s"
    "listeners (resize s) = listeners s"
    "function_objects (resize s) = function_objects s"
    "next_function (resize s) = next_function s"
    "animationId (resize s) = animationId s"
    "draw_calls (resize s) = draw_calls s"
    "ctx (resize s) = ctx s"
    "last_request (resize s) = last_request s"
    unfolding r by simp_all
qed

lemma draw_frame:
  "frame_requests (draw s) = frame_requests s"
  "listeners (draw s) = listeners s"
  "function_objects (draw s) = function_objects s"
  "next_function (draw s) = next_function s"
  "animationId (draw s) = animationId s"
  "draw_calls (draw s) = Suc (draw_calls s)"
  "ctx (draw s) = ctx s"
  "then_ms (draw s) = then_ms s"
  "clock (draw s) = clock s"
  "fpsInterval (draw s) = fpsInterval s"
proof -
  obtain sf tm ps where r: "draw s = s\<lparr>surface := sf, draw_calls := Suc (draw_calls s), time := tm,
                            particles := ps\<rparr>"
    using draw_state by blast
  show "frame_requests (draw s) = frame_requests s"
    "listeners (draw s) = listeners s"
    "function_objects (draw s) = function_objects s"
    "next_function (draw s) = next_function s"
    "animationId (draw s) = animationId s"
    "draw_calls (draw s) = Suc (draw_calls s)"
    "ctx (draw s) = ctx s"
    "then_ms (draw s) = then_ms s"
    "clock (draw s) = clock s"
    "fpsInterval (draw s) = fpsInterval s"
    unfolding r by simp_all
qed

lemma createParticles_frame:
  "frame_requests (createParticles s) = frame_requests s"
  "listeners (createParticles s) = listeners s"
  "function_objects (createParticles s) = function_objects s"
  "next_function (createParticles s) = next_function s"
  "animationId (createParticles s) = animationId s"
  "draw_calls (createParticles s) = draw_calls s"
  "ctx (createParticles s) = ctx s"
  "last_request (createParticles s) = last_request s"
proof -
  obtain ps k where r: "createParticles s = s\<lparr>particles := ps, random_calls := k\<rparr>"
    using createParticles_state by blast
  show "frame_requests (createParticles s) = frame_requests s"
    "listeners (createParticles s) = listeners s"
    "function_objects (createParticles s) = function_objects s"
    "next_function (createParticles s) = next_function s"
    "animationId (createParticles s) = animationId s"
    "draw_calls (createParticles s) = draw_calls s"
    "ctx (createParticles s) = ctx s"
    "last_request (createParticles s) = last_request s"
    unfolding r by simp_all
qed

lemma animate_frame:
  "frame_requests (animate s) = frame_requests s @ [(Suc (last_request s), next_function s)]"
  "animationId (animate s) = Some (Suc (last_request s))"
  "listeners (animate s) = listeners s"
  "function_objects (animate s) = (function_objects s)(next_function s := Some Animate)"
  "next_function (animate s) = Suc (next_function s)"
  "ctx (animate s) = ctx s"
  by (simp_all add: animate_def bind_def requestAnimationFrame_def Let_def draw_frame
      split: option.splits)

text \<open>
  The throttle: a frame is drawn when more than \<open>fpsInterval\<close> has passed since \<open>then\<close>,
  and \<open>then\<close> moves to the last multiple of the interval. With 30 frames per second the
  interval is the double \<open>33.333333333333336\<close>, three of which exceed 100: of two frames
  that arrive 100 and 110 milliseconds after the start both are drawn.
\<close>

lemma animate_throttle:
  assumes "fpsInterval s = Some i" and "js_sub (clock s) (then_ms s) > i"
  shows "draw_calls (animate s) = Suc (draw_calls s)"
    and "then_ms (animate s) = js_sub (clock s) (js_fmod (js_sub (clock s) (then_ms s)) i)"
    and "clock (animate s) = clock s"
    and "fpsInterval (animate s) = Some i"
  using assms
  by (simp_all add: animate_def bind_def requestAnimationFrame_def Let_def draw_frame)

lemma throttle_draws_both_frames:
  "draw_calls (animate throttle0) = Suc (draw_calls throttle0) \<and>
   draw_calls (animate ((animate throttle0)\<lparr>clock := 1110\<rparr>)) = Suc (Suc (draw_calls throttle0))"
proof -
  have i: "fpsInterval throttle0 = Some (4691249611844267 / 140737488355328)"
    by (simp add: throttle0_def double_eval)
  have e1: "js_sub (clock throttle0) (then_ms throttle0) = 100"
    by (simp add: throttle0_def double_eval)
  have g1: "js_sub (clock throttle0) (then_ms throttle0) > 4691249611844267 / 140737488355328"
    unfolding e1 by simp
  note a1 = animate_throttle[OF i g1]
  have t1: "then_ms (animate throttle0) = 4691249611844267 / 4398046511104"
    unfolding a1(2) e1 by (simp add: throttle0_def js_fmod_def double_eval)
  let ?s2 = "(animate throttle0)\<lparr>clock := 1110\<rparr>"
  have i2: "fpsInterval ?s2 = Some (4691249611844267 / 140737488355328)"
    using a1(4) by simp
  have g2: "js_sub (clock ?s2) (then_ms ?s2) > 4691249611844267 / 140737488355328"
    by (simp add: t1 double_eval)
  note a2 = animate_throttle[OF i2 g2]
  from a1(1) a2(1) show ?thesis by simp
qed

lemma pause_frame:
  "listeners (pause s) = listeners s"
  "function_objects (pause s) = function_objects s"
  "next_function (pause s) = next_function s"
  "draw_calls (pause s) = draw_calls s"
  "ctx (pause s) = ctx s"
  by (simp_all add: pause_def cancelAnimationFrame_def split: option.splits)

lemma pause_cancels:
  assumes "well_scheduled s"
  shows "frame_requests (pause s) = []"
proof (cases "frame_requests s")
  case Nil
  then show ?thesis by (simp add: pause_def cancelAnimationFrame_def split: option.splits)
next
  case (Cons r rest)
  with assms have "rest = []" and "animationId s = Some (fst r)" and "fst r \<noteq> 0"
    by (auto simp add: well_scheduled_def)
  with Cons show ?thesis by (simp add: pause_def cancelAnimationFrame_def)
qed

lemma destroy_keeps_listeners:
  assumes "\<forall>l \<in> set (listeners s). snd l < next_function s"
  shows "listeners (destroy s) = listeners s"
proof -
  have a: "(''resize'', next_function s) \<notin> set (listeners s)"
    using assms by fastforce
  have b: "(''themechange'', Suc (next_function s)) \<notin> set (listeners s)"
    using assms by fastforce
  show ?thesis
    using a b
    by (simp add: destroy_def bind_def removeEventListener_def clearRect_def Let_def pause_frame)
qed


lemma call_function_quiet:
  assumes "function_objects s f \<noteq> Some Animate"
  shows "frame_requests (call_function f arg s) = frame_requests s"
    and "listeners (call_function f arg s) = listeners s"
    and "function_objects (call_function f arg s) = function_objects s"
    and "next_function (call_function f arg s) = next_function s"
    and "animationId (call_function f arg s) = animationId s"
    and "draw_calls (call_function f arg s) = draw_calls s"
  using assms
  by (auto simp add: call_function_def resize_frame handleThemeChange_def
      split: option.splits pb_method.splits)

lemma dispatch_loop_quiet:
  "\<forall>f \<in> set fs. function_objects s f \<noteq> Some Animate \<Longrightarrow>
     frame_requests (foldl (\<lambda>acc f. call_function f arg acc) s fs) = frame_requests s \<and>
     listeners (foldl (\<lambda>acc f. call_function f arg acc) s fs) = listeners s \<and>
     function_objects (foldl (\<lambda>acc f. call_function f arg acc) s fs) = function_objects s \<and>
     next_function (foldl (\<lambda>acc f. call_function f arg acc) s fs) = next_function s \<and>
     animationId (foldl (\<lambda>acc f. call_function f arg acc) s fs) = animationId s \<and>
     draw_calls (foldl (\<lambda>acc f. call_function f arg acc) s fs) = draw_calls s"
proof (induction fs arbitrary: s)
  case Nil
  then show ?case by simp
next
  case (Cons f fs)
  from Cons.prems have f: "function_objects s f \<noteq> Some Animate" by simp
  note q = call_function_quiet[OF f, of arg]
  have "\<forall>g \<in> set fs. function_objects (call_function f arg s) g \<noteq> Some Animate"
    using Cons.prems q(3) by simp
  from Cons.IH[OF this] q show ?case by simp
qed

lemma dispatch_quiet:
  assumes "\<forall>l \<in> set (listeners s). function_objects s (snd l) \<noteq> Some Animate"
  shows "frame_requests (dispatch ty arg s) = frame_requests s \<and>
     listeners (dispatch ty arg s) = listeners s \<and>
     function_objects (dispatch ty arg s) = function_objects s \<and>
     next_function (dispatch ty arg s) = next_function s \<and>
     animationId (dispatch ty arg s) = animationId s \<and>
     draw_calls (dispatch ty arg s) = draw_calls s"
  unfolding dispatch_def
  by (rule dispatch_loop_quiet) (use assms in auto)

lemma quiescent_step:
  assumes "quiescent s"
  shows "quiescent (pb_step e s) \<and> draw_calls (pb_step e s) = draw_calls s"
proof (cases e)
  case FrameFires
  with assms show ?thesis by (simp add: quiescent_def)
next
  case (WindowResize w h)
  let ?s1 = "s\<lparr>innerWidth := w, innerHeight := h\<rparr>"
  have "\<forall>l \<in> set (listeners ?s1). function_objects ?s1 (snd l) \<noteq> Some Animate"
    using assms by (simp add: quiescent_def)
  from dispatch_quiet[OF this, of "''resize''" "[]"] assms WindowResize
  show ?thesis by (simp add: quiescent_def)
next
  case (ThemeChange t)
  let ?s1 = "s\<lparr>root_data_theme := Some t\<rparr>"
  have "\<forall>l \<in> set (listeners ?s1). function_objects ?s1 (snd l) \<noteq> Some Animate"
    using assms by (simp add: quiescent_def)
  from dispatch_quiet[OF this, of "''themechange''" t] assms ThemeChange
  show ?thesis by (simp add: quiescent_def)
next
  case (ClockAdvance d)
  with assms show ?thesis by (simp add: quiescent_def)
qed

lemma quiescent_run:
  "quiescent s \<Longrightarrow> quiescent (pb_run es s) \<and> draw_calls (pb_run es s) = draw_calls s"
proof (induction es arbitrary: s)
  case Nil
  then show ?case by simp
next
  case (Cons e es)
  from quiescent_step[OF Cons.prems, of e] Cons.IH[of "pb_step e s"] show ?case by simp
qed

lemma destroy_frame:
  "frame_requests (destroy s) = frame_requests (pause s)"
  "function_objects (destroy s) =
     (function_objects s)(next_function s := Some Resize,
                          Suc (next_function s) := Some HandleThemeChange)"
  "next_function (destroy s) = Suc (Suc (next_function s))"
  "draw_calls (destroy s) = draw_calls s"
  "particles (destroy s) = []"
  "ctx s \<Longrightarrow> surface (destroy s) = []"
  by (simp_all add: destroy_def bind_def removeEventListener_def clearRect_def Let_def pause_frame)

lemma destroy_quiescent:
  assumes "well_scheduled s"
  shows "quiescent (destroy s)"
proof -
  have fresh: "\<forall>l \<in> set (listeners s). snd l < next_function s"
    using assms by (simp add: well_scheduled_def)
  have l: "listeners (destroy s) = listeners s" using destroy_keeps_listeners[OF fresh] .
  have "\<forall>l \<in> set (listeners s). function_objects (destroy s) (snd l) \<noteq> Some Animate"
    using assms by (auto simp add: well_scheduled_def destroy_frame)
  then show ?thesis
    using pause_cancels[OF assms] l by (simp add: quiescent_def destroy_frame)
qed

lemma destroy_stops_drawing:
  assumes "well_scheduled s"
  shows "draw_calls (pb_run es (destroy s)) = draw_calls s \<and>
         frame_requests (pb_run es (destroy s)) = [] \<and>
         particles (destroy s) = [] \<and>
         (ctx s \<longrightarrow> surface (destroy s) = [])"
  using quiescent_run[OF destroy_quiescent[OF assms], of es]
  by (simp add: quiescent_def destroy_frame)


lemma well_scheduled_cong:
  assumes "frame_requests t = frame_requests s" and "animationId t = animationId s"
      and "listeners t = listeners s" and "function_objects t = function_objects s"
      and "next_function t = next_function s"
  shows "well_scheduled t = well_scheduled s"
  using assms by (simp add: well_scheduled_def)

lemma animate_well_scheduled:
  assumes "well_scheduled s" and "frame_requests s = []"
  shows "well_scheduled (animate s)"
  using assms by (auto simp add: well_scheduled_def animate_frame)

lemma call_function_well_scheduled:
  assumes "well_scheduled s" and "frame_requests s = []"
  shows "well_scheduled (call_function f arg s)"
proof (cases "function_objects s f = Some Animate")
  case True
  then show ?thesis using animate_well_scheduled[OF assms] by (simp add: call_function_def)
next
  case False
  note q = call_function_quiet[OF False, of arg]
  show ?thesis using well_scheduled_cong[OF q(1,5,2,3,4)] assms(1) by simp
qed

lemma pb_step_well_scheduled:
  assumes "well_scheduled s"
  shows "well_scheduled (pb_step e s)"
proof (cases e)
  case FrameFires
  show ?thesis
  proof (cases "frame_requests s")
    case Nil
    with FrameFires assms show ?thesis by simp
  next
    case (Cons r rest)
    with assms have rest: "rest = []" by (auto simp add: well_scheduled_def)
    have "well_scheduled (s\<lparr>frame_requests := []\<rparr>)"
      using assms by (simp add: well_scheduled_def)
    from call_function_well_scheduled[OF this, of "snd r" "[]"] FrameFires Cons rest
    show ?thesis by simp
  qed
next
  case (WindowResize w h)
  let ?s1 = "s\<lparr>innerWidth := w, innerHeight := h\<rparr>"
  have w1: "well_scheduled ?s1" using assms by (simp add: well_scheduled_def)
  then have "\<forall>l \<in> set (listeners ?s1). function_objects ?s1 (snd l) \<noteq> Some Animate"
    by (simp add: well_scheduled_def)
  from dispatch_quiet[OF this, of "''resize''" "[]"]
  have "well_scheduled (dispatch ''resize'' [] ?s1) = well_scheduled ?s1"
    by (intro well_scheduled_cong) simp_all
  with w1 WindowResize show ?thesis by simp
next
  case (ThemeChange t)
  let ?s1 = "s\<lparr>root_data_theme := Some t\<rparr>"
  have w1: "well_scheduled ?s1" using assms by (simp add: well_scheduled_def)
  then have "\<forall>l \<in> set (listeners ?s1). function_objects ?s1 (snd l) \<noteq> Some Animate"
    by (simp add: well_scheduled_def)
  from dispatch_quiet[OF this, of "''themechange''" t]
  have "well_scheduled (dispatch ''themechange'' t ?s1) = well_scheduled ?s1"
    by (intro well_scheduled_cong) simp_all
  with w1 ThemeChange show ?thesis by simp
next
  case (ClockAdvance d)
  with assms show ?thesis by (simp add: well_scheduled_def)
qed

lemma pause_well_scheduled:
  assumes "well_scheduled s"
  shows "well_scheduled (pause s)"
  using assms pause_cancels[OF assms]
  by (simp add: well_scheduled_def pause_frame)

lemma resume_well_scheduled:
  assumes "well_scheduled s"
  shows "well_scheduled (resume s)"
proof (cases "animationId s = None \<or> animationId s = Some 0")
  case True
  with assms have e: "frame_requests s = []"
    by (cases "frame_requests s") (auto simp add: well_scheduled_def)
  have "well_scheduled (s\<lparr>then_ms := clock s\<rparr>)" using assms by (simp add: well_scheduled_def)
  from animate_well_scheduled[OF this] e True show ?thesis by (simp add: resume_def)
next
  case False
  then have "resume s = s" by (auto simp add: resume_def)
  with assms show ?thesis by simp
qed

lemma pb_acts_well_scheduled:
  "well_scheduled s \<Longrightarrow> well_scheduled (pb_acts as s)"
proof (induction as arbitrary: s)
  case Nil
  then show ?case by simp
next
  case (Cons a as)
  have "well_scheduled (pb_act a s)"
    using Cons.prems pb_step_well_scheduled pause_well_scheduled resume_well_scheduled
    by (cases a) simp_all
  then show ?case using Cons.IH by simp
qed

lemma init_particles_frame:
  assumes "\<forall>l \<in> set (listeners s). snd l < next_function s"
  shows "listeners (init_particles s) =
           listeners s @ [(''resize'', next_function s), (''themechange'', Suc (next_function s))]"
    and "function_objects (init_particles s) =
           (function_objects s)(next_function s := Some Resize,
                                Suc (next_function s) := Some HandleThemeChange,
                                Suc (Suc (next_function s)) := Some Animate)"
    and "next_function (init_particles s) = Suc (Suc (Suc (next_function s)))"
    and "frame_requests (init_particles s) =
           frame_requests s @ [(Suc (last_request s), Suc (Suc (next_function s)))]"
    and "animationId (init_particles s) = Some (Suc (last_request s))"
    and "ctx (init_particles s) = ctx s"
proof -
  have a: "(''resize'', next_function s) \<notin> set (listeners s)"
    using assms by fastforce
  have b: "(''themechange'', Suc (next_function s)) \<notin> set (listeners s)"
    using assms by fastforce
  show "listeners (init_particles s) =
           listeners s @ [(''resize'', next_function s), (''themechange'', Suc (next_function s))]"
    using a b
    by (simp add: init_particles_def Let_def bind_def addEventListener_def resize_frame
        createParticles_frame animate_frame)
  show "function_objects (init_particles s) =
           (function_objects s)(next_function s := Some Resize,
                                Suc (next_function s) := Some HandleThemeChange,
                                Suc (Suc (next_function s)) := Some Animate)"
    by (simp add: init_particles_def Let_def bind_def addEventListener_def resize_frame
        createParticles_frame animate_frame)
  show "next_function (init_particles s) = Suc (Suc (Suc (next_function s)))"
    by (simp add: init_particles_def Let_def bind_def addEventListener_def resize_frame
        createParticles_frame animate_frame)
  show "frame_requests (init_particles s) =
           frame_requests s @ [(Suc (last_request s), Suc (Suc (next_function s)))]"
    by (simp add: init_particles_def Let_def bind_def addEventListener_def resize_frame
        createParticles_frame animate_frame)
  show "animationId (init_particles s) = Some (Suc (last_request s))"
    by (simp add: init_particles_def Let_def bind_def addEventListener_def resize_frame
        createParticles_frame animate_frame)
  show "ctx (init_particles s) = ctx s"
    by (simp add: init_particles_def Let_def bind_def addEventListener_def resize_frame
        createParticles_frame animate_frame)
qed

lemma new_ParticleBackground_well_scheduled:
  assumes "well_scheduled page" and "frame_requests page = []"
  shows "well_scheduled (new_ParticleBackground opts page)"
proof (cases "has_canvas page")
  case False
  with assms(1) show ?thesis by (simp add: new_ParticleBackground_def well_scheduled_def)
next
  case True
  let ?s0 = "page\<lparr>ctx := True, particles := [], options := opts,
                   fpsInterval := (if fps opts = 0 then None else Some (js_div 1000 (fps opts))),
                   then_ms := clock page, animationId := None\<rparr>"
  have fresh: "\<forall>l \<in> set (listeners ?s0). snd l < next_function ?s0"
    using assms(1) by (simp add: well_scheduled_def)
  note f = init_particles_frame[OF fresh]
  have "well_scheduled (init_particles ?s0)"
    unfolding well_scheduled_def f using assms by (auto simp add: well_scheduled_def)
  with True show ?thesis by (simp add: new_ParticleBackground_def)
qed


lemma resize_canvas:
  "canvas_width (resize s) = innerWidth s"
  "canvas_height (resize s) = innerHeight s"
proof -
  obtain ps k where r: "resize s = s\<lparr>canvas_width := innerWidth s, canvas_height := innerHeight s,
                          surface := [], particles := ps, random_calls := k\<rparr>"
    using resize_state by blast
  show "canvas_width (resize s) = innerWidth s" "canvas_height (resize s) = innerHeight s"
    unfolding r by simp_all
qed

lemma particles0_registered:
  "listeners particles0 = [(''resize'', 0), (''themechange'', 1)]"
  "function_objects particles0 0 = Some Resize"
  "function_objects particles0 1 = Some HandleThemeChange"
  "next_function particles0 = 3"
proof -
  let ?s0 = "pb_page0\<lparr>ctx := True, particles := [], options := options0,
                   fpsInterval := (if fps options0 = 0 then None else Some (js_div 1000 (fps options0))),
                   then_ms := clock pb_page0, animationId := None\<rparr>"
  have p: "particles0 = init_particles ?s0"
    by (simp add: particles0_def new_ParticleBackground_def pb_page0_def)
  have l0: "listeners ?s0 = []" and n0: "next_function ?s0 = 0"
    by (simp_all add: pb_page0_def)
  have fresh: "\<forall>l \<in> set (listeners ?s0). snd l < next_function ?s0"
    unfolding l0 by simp
  note f = init_particles_frame[OF fresh]
  show "listeners particles0 = [(''resize'', 0), (''themechange'', 1)]"
    unfolding p f(1) l0 n0 by simp
  show "function_objects particles0 0 = Some Resize"
    unfolding p f(2) n0 by simp
  show "function_objects particles0 1 = Some HandleThemeChange"
    unfolding p f(2) n0 by simp
  show "next_function particles0 = 3"
    unfolding p f(3) n0 by simp
qed

text \<open>
  Once destroyed, an object that was reached from its constructor draws no more, whatever
  the browser does next; its canvas is cleared and its particles are dropped.
\<close>

lemma destroy_stops_drawing_reachable:
  assumes "well_scheduled page" and "frame_requests page = []"
      and "s = pb_acts as (new_ParticleBackground opts page)"
  shows "draw_calls (pb_run es (destroy s)) = draw_calls s \<and>
         frame_requests (pb_run es (destroy s)) = [] \<and>
         particles (destroy s) = [] \<and>
         (ctx s \<longrightarrow> surface (destroy s) = [])"
  using destroy_stops_drawing pb_acts_well_scheduled
    new_ParticleBackground_well_scheduled[OF assms(1,2)] assms(3)
  by blast

text \<open>
  Claim C6: after \<open>destroy()\<close> no draw call occurs any more, the resize and theme-change
  listeners are detached, the drawing surface is cleared and the particle batch is
  emptied. The code does not detach the listeners: \<open>destroy\<close> passes
  \<open>this.resize.bind(this)\<close> and \<open>this.handleThemeChange.bind(this)\<close> to
  \<open>removeEventListener\<close>, and \<open>bind\<close> makes a new function each time, so neither is the
  function \<open>init\<close> registered. After construction and \<open>destroy()\<close> both listeners are still
  registered, and a later resize of the window still runs \<open>resize\<close> on the destroyed
  object. The other three parts of the claim hold (\<open>destroy_stops_drawing_reachable\<close>).
\<close>

theorem destroy_leaves_listeners_attached:
  "listeners particles0 = [(''resize'', 0), (''themechange'', 1)] \<and>
   listeners (destroy particles0) = [(''resize'', 0), (''themechange'', 1)] \<and>
   function_objects (destroy particles0) 0 = Some Resize \<and>
   canvas_width (pb_step (WindowResize 1024 768) (destroy particles0)) = 1024"
proof -
  have fresh: "\<forall>l \<in> set (listeners particles0). snd l < next_function particles0"
    by (simp add: particles0_registered)
  have l: "listeners (destroy particles0) = [(''resize'', 0), (''themechange'', 1)]"
    using destroy_keeps_listeners[OF fresh] by (simp add: particles0_registered)
  have f: "function_objects (destroy particles0) 0 = Some Resize"
    by (simp add: destroy_frame particles0_registered)
  let ?s1 = "(destroy particles0)\<lparr>innerWidth := 1024, innerHeight := 768\<rparr>"
  have "pb_step (WindowResize 1024 768) (destroy particles0) = resize ?s1"
    using l f by (simp add: dispatch_def call_function_def)
  then have "canvas_width (pb_step (WindowResize 1024 768) (destroy particles0)) = 1024"
    by (simp add: resize_canvas)
  with l f show ?thesis by (simp add: particles0_registered)
qed

section \<open>Fireflies: results\<close>

lemma animate_firefly_dark:
  "animate_firefly s True dt f = f\<lparr>el := (el f)\<lparr>style_opacity := 0\<rparr>\<rparr>"
  by (simp add: animate_firefly_def)

text \<open>
  Claim C9: when the dark theme is active at an animation frame, the frame sets the
  opacity of every firefly to zero and changes nothing else of it: no drift, no wrap, no
  glow update. The theme is read anew in every frame.
\<close>

theorem fireflies_hidden_when_dark:
  assumes "isDark s"
  shows "fireflies (fireflies_animate t s) =
           map (\<lambda>f. f\<lparr>el := (el f)\<lparr>style_opacity := 0\<rparr>\<rparr>) (fireflies s) \<and>
         (\<forall>f \<in> set (fireflies (fireflies_animate t s)). style_opacity (el f) = 0) \<and>
         isDark (fireflies_animate t s)"
  using assms by (auto simp add: fireflies_animate_def animate_firefly_dark isDark_def Let_def)

theorem fireflies_hidden_when_dark_witness:
  "isDark fireflies0 \<and>
   map (\<lambda>f. style_opacity (el f)) (fireflies fireflies0) = [0.7] \<and>
   fireflies (fireflies_animate 32 fireflies0) =
     [firefly0\<lparr>el := (el firefly0)\<lparr>style_opacity := 0\<rparr>\<rparr>] \<and>
   map (\<lambda>f. style_opacity (el f)) (fireflies (fireflies_animate 32 fireflies0)) = [0] \<and>
   map fx (fireflies (fireflies_animate 32 fireflies0)) = [50] \<and>
   map phase (fireflies (fireflies_animate 32 fireflies0)) = [1]"
  using fireflies_hidden_when_dark [of fireflies0 32]
  by (simp add: fireflies0_def firefly0_def isDark_def)

section \<open>Carousels: results\<close>

lemma js_rem_nonneg: "0 \<le> a \<Longrightarrow> 0 < b \<Longrightarrow> js_rem a b = a mod b"
  by (simp add: js_rem_def sgn_if)

lemma goToSlide_index_ok:
  assumes "index_ok c" and "- int (length (slides c)) \<le> index"
  shows "\<exists>c1. goToSlide index c = Some c1 \<and> index_ok c1 \<and>
           currentIndex c1 = index mod int (length (slides c)) \<and>
           slides c1 = (slides c)[nat (currentIndex c) := False, nat (currentIndex c1) := True] \<and>
           dots c1 = (dots c)[nat (currentIndex c) := False, nat (currentIndex c1) := True] \<and>
           prevBtn c1 = prevBtn c \<and> nextBtn c1 = nextBtn c"
proof -
  let ?n = "int (length (slides c))"
  from assms(1) have n: "0 < ?n" and cur: "0 \<le> currentIndex c" "currentIndex c < ?n"
    and d: "?n \<le> int (length (dots c))" by (auto simp add: index_ok_def)
  have r: "js_rem (index + ?n) ?n = index mod ?n"
    using js_rem_nonneg[of "index + ?n" ?n] assms(2) n by simp
  have m: "0 \<le> index mod ?n" "index mod ?n < ?n" using n by simp_all
  have md: "index mod ?n < int (length (dots c))" using m(2) d by linarith
  have a1: "classList_set False (currentIndex c) (slides c) =
              Some ((slides c)[nat (currentIndex c) := False])"
    using cur by (simp add: classList_set_def)
  have a2: "classList_set False (currentIndex c) (dots c) =
              Some ((dots c)[nat (currentIndex c) := False])"
    using cur d by (simp add: classList_set_def)
  have a3: "classList_set True (index mod ?n) ((slides c)[nat (currentIndex c) := False]) =
              Some ((slides c)[nat (currentIndex c) := False, nat (index mod ?n) := True])"
    using m by (simp add: classList_set_def)
  have a4: "classList_set True (index mod ?n) ((dots c)[nat (currentIndex c) := False]) =
              Some ((dots c)[nat (currentIndex c) := False, nat (index mod ?n) := True])"
    using m(1) md by (simp add: classList_set_def)
  have g: "goToSlide index c =
     Some (c\<lparr>slides := (slides c)[nat (currentIndex c) := False, nat (index mod ?n) := True],
             dots := (dots c)[nat (currentIndex c) := False, nat (index mod ?n) := True],
             currentIndex := index mod ?n\<rparr>)"
    unfolding goToSlide_def a1 a2 r Let_def option.case a3 a4 ..
  show ?thesis
    unfolding g using m d by (simp add: index_ok_def)
qed

lemma carousel_step_index_ok:
  assumes "index_ok c"
  shows "\<exists>c1. carousel_step a c = Some c1 \<and> index_ok c1 \<and>
           length (slides c1) = length (slides c)"
proof -
  have g: "\<And>index. - int (length (slides c)) \<le> index \<Longrightarrow>
      \<exists>c1. goToSlide index c = Some c1 \<and> index_ok c1 \<and> length (slides c1) = length (slides c)"
  proof -
    fix index assume "- int (length (slides c)) \<le> index"
    from goToSlide_index_ok[OF assms this] obtain c1 where
      "goToSlide index c = Some c1" "index_ok c1"
      "slides c1 = (slides c)[nat (currentIndex c) := False, nat (currentIndex c1) := True]"
      by blast
    then show "\<exists>c1. goToSlide index c = Some c1 \<and> index_ok c1 \<and> length (slides c1) = length (slides c)"
      by simp
  qed
  from assms have cur: "0 \<le> currentIndex c" by (simp add: index_ok_def)
  show ?thesis
  proof (cases a)
    case NextClick
    then show ?thesis using g[of "currentIndex c + 1"] cur assms by (simp add: nextSlide_def)
  next
    case PrevClick
    then show ?thesis using g[of "currentIndex c - 1"] cur assms
      by (simp add: prevSlide_def index_ok_def)
  next
    case (DotClick k)
    then show ?thesis using g[of "int k"] assms by simp
  next
    case (Swipe diff)
    then show ?thesis using g[of "currentIndex c + 1"] g[of "currentIndex c - 1"] cur assms
      by (simp add: nextSlide_def prevSlide_def index_ok_def)
  qed
qed

lemma carousel_run_index_ok:
  "index_ok c \<Longrightarrow> \<exists>c1. carousel_run ops c = Some c1 \<and> index_ok c1 \<and>
           length (slides c1) = length (slides c)"
proof (induction ops arbitrary: c)
  case Nil
  then show ?case by simp
next
  case (Cons a as)
  from carousel_step_index_ok[OF Cons.prems, of a] obtain c1 where
    c1: "carousel_step a c = Some c1" "index_ok c1" "length (slides c1) = length (slides c)"
    by blast
  from Cons.IH[OF c1(2)] c1 show ?case by simp
qed

lemma one_active_move:
  assumes "i < n" and "j < n"
  shows "(one_active n i)[i := False, j := True] = one_active n j"
  using assms by (simp add: one_active_def list_eq_iff_nth_eq nth_list_update)

lemma count_one_active: "i < n \<Longrightarrow> count_active (one_active n i) = 1"
  by (simp add: count_active_def one_active_def upd_conv_take_nth_drop)

lemma one_active_nth: "i < n \<Longrightarrow> one_active n i ! i"
  by (simp add: one_active_def)

lemma goToSlide_markers_ok:
  assumes "index_ok c" and "markers_ok c" and "- int (length (slides c)) \<le> index"
      and "goToSlide index c = Some c1"
  shows "markers_ok c1"
proof -
  let ?n = "length (slides c)"
  from goToSlide_index_ok[OF assms(1,3)] assms(4) have
    ok: "index_ok c1"
    and s: "slides c1 = (slides c)[nat (currentIndex c) := False, nat (currentIndex c1) := True]"
    and d: "dots c1 = (dots c)[nat (currentIndex c) := False, nat (currentIndex c1) := True]"
    by auto
  from s have len: "length (slides c1) = ?n" by simp
  from assms(1) have i: "nat (currentIndex c) < ?n" by (auto simp add: index_ok_def)
  from ok len have j: "nat (currentIndex c1) < ?n" by (auto simp add: index_ok_def)
  from assms(2) have sc: "slides c = one_active ?n (nat (currentIndex c))"
    and dc: "dots c = one_active ?n (nat (currentIndex c))" by (simp_all add: markers_ok_def)
  have "slides c1 = one_active ?n (nat (currentIndex c1))"
    using s sc one_active_move[OF i j] by metis
  moreover have "dots c1 = one_active ?n (nat (currentIndex c1))"
    using d dc one_active_move[OF i j] by metis
  ultimately show ?thesis using len by (simp add: markers_ok_def)
qed

lemma carousel_step_markers_ok:
  assumes "index_ok c" and "markers_ok c" and "carousel_step a c = Some c1"
  shows "markers_ok c1"
proof -
  from assms(1) have cur: "0 \<le> currentIndex c" "0 < length (slides c)"
    by (auto simp add: index_ok_def)
  note g = goToSlide_markers_ok[OF assms(1,2)]
  show ?thesis
  proof (cases a)
    case NextClick
    then show ?thesis using g[of "currentIndex c + 1" c1] cur assms(2,3)
      by (auto simp add: nextSlide_def split: if_splits)
  next
    case PrevClick
    then show ?thesis using g[of "currentIndex c - 1" c1] cur assms(2,3)
      by (auto simp add: prevSlide_def split: if_splits)
  next
    case (DotClick k)
    then show ?thesis using g[of "int k" c1] assms(2,3) by (auto split: if_splits)
  next
    case (Swipe diff)
    then show ?thesis using g[of "currentIndex c + 1" c1] g[of "currentIndex c - 1" c1] cur assms(2,3)
      by (auto simp add: nextSlide_def prevSlide_def split: if_splits)
  qed
qed

lemma carousel_run_markers_ok:
  "index_ok c \<Longrightarrow> markers_ok c \<Longrightarrow> carousel_run ops c = Some c1 \<Longrightarrow> markers_ok c1"
proof (induction ops arbitrary: c)
  case Nil
  then show ?case by simp
next
  case (Cons a as)
  from carousel_step_index_ok[OF Cons.prems(1), of a] obtain c2 where
    c2: "carousel_step a c = Some c2" "index_ok c2" by blast
  have "markers_ok c2" using carousel_step_markers_ok[OF Cons.prems(1,2) c2(1)] .
  with Cons.IH[OF c2(2)] Cons.prems(3) c2(1) show ?case by simp
qed

lemma initCarousel_index_ok:
  "initCarousel m = Ready c0 \<Longrightarrow> index_ok c0 \<and> slides c0 = slide_active m"
  by (auto simp add: initCarousel_def index_ok_def split: if_splits option.splits)

lemma map_is_zero: "map (\<lambda>index. index = 0) [0 ..< Suc k] = True # replicate k False"
  by (auto simp add: list_eq_iff_nth_eq nth_Cons' simp del: upt_Suc)

lemma initCarousel_markers_ok:
  assumes "initCarousel m = Ready c0" and "slide_active m = True # rest" and "True \<notin> set rest"
      and "dots_container m = Some []"
  shows "markers_ok c0"
proof -
  from assms(3) have rest: "rest = replicate (length rest) False"
    by (induction rest) auto
  have "one_active (Suc (length rest)) 0 = True # replicate (length rest) False"
    by (simp add: one_active_def)
  then show ?thesis
    using assms(1,2,4) rest map_is_zero[of "length rest"]
    by (auto simp add: initCarousel_def markers_ok_def split: if_splits)
qed

text \<open>
  Claim C10, as amended: for every carousel with at least one slide (and a dot
  container), under every sequence of next, previous, dot-click and swipe operations no
  call throws, the index stays in \<open>[0, n)\<close> and moves cyclically (next from \<open>n - 1\<close> gives 0,
  previous from 0 gives \<open>n - 1\<close>); and when the markup marks the first slide and no other
  as active and the dot container starts empty, exactly one slide and one dot carry the
  active marker after each operation, those at the current index.
\<close>

theorem carousel_index_and_markers:
  assumes "initCarousel m = Ready c0"
  shows "\<exists>c. carousel_run ops c0 = Some c \<and>
           0 \<le> currentIndex c \<and> currentIndex c < int (length (slide_active m)) \<and>
           (\<exists>c1. nextSlide c = Some c1 \<and>
                  currentIndex c1 = (currentIndex c + 1) mod int (length (slide_active m))) \<and>
           (\<exists>c1. prevSlide c = Some c1 \<and>
                  currentIndex c1 = (currentIndex c - 1) mod int (length (slide_active m))) \<and>
           (hd (slide_active m) \<and> True \<notin> set (tl (slide_active m)) \<and> dots_container m = Some [] \<longrightarrow>
              count_active (slides c) = 1 \<and> slides c ! nat (currentIndex c) \<and>
              count_active (dots c) = 1 \<and> dots c ! nat (currentIndex c))"
proof -
  from initCarousel_index_ok[OF assms] have ok0: "index_ok c0" and s0: "slides c0 = slide_active m"
    by simp_all
  from carousel_run_index_ok[OF ok0, of ops] obtain c where
    c: "carousel_run ops c0 = Some c" "index_ok c" "length (slides c) = length (slide_active m)"
    using s0 by auto
  from c(2) have cur: "0 \<le> currentIndex c" "currentIndex c < int (length (slides c))"
    by (simp_all add: index_ok_def)
  have nx: "\<exists>c1. nextSlide c = Some c1 \<and>
                  currentIndex c1 = (currentIndex c + 1) mod int (length (slide_active m))"
    using goToSlide_index_ok[OF c(2), of "currentIndex c + 1"] cur c(3)
    by (auto simp add: nextSlide_def)
  have pv: "\<exists>c1. prevSlide c = Some c1 \<and>
                  currentIndex c1 = (currentIndex c - 1) mod int (length (slide_active m))"
    using goToSlide_index_ok[OF c(2), of "currentIndex c - 1"] cur c(3)
    by (auto simp add: prevSlide_def)
  have mk: "count_active (slides c) = 1 \<and> slides c ! nat (currentIndex c) \<and>
              count_active (dots c) = 1 \<and> dots c ! nat (currentIndex c)"
    if h: "hd (slide_active m)" "True \<notin> set (tl (slide_active m))" "dots_container m = Some []"
  proof -
    from assms have "slide_active m \<noteq> []" by (auto simp add: initCarousel_def split: if_splits)
    with h(1) have sa: "slide_active m = True # tl (slide_active m)" by (cases "slide_active m") auto
    have "markers_ok c0" using initCarousel_markers_ok[OF assms sa h(2,3)] .
    then have "markers_ok c" using carousel_run_markers_ok[OF ok0 _ c(1)] by simp
    then have sc: "slides c = one_active (length (slides c)) (nat (currentIndex c))"
      and dc: "dots c = one_active (length (slides c)) (nat (currentIndex c))"
      by (simp_all add: markers_ok_def)
    have lt: "nat (currentIndex c) < length (slides c)" using cur by simp
    have "count_active (slides c) = 1" using sc count_one_active[OF lt] by metis
    moreover have "slides c ! nat (currentIndex c)" using sc one_active_nth[OF lt] by metis
    moreover have "count_active (dots c) = 1" using dc count_one_active[OF lt] by metis
    moreover have "dots c ! nat (currentIndex c)" using dc one_active_nth[OF lt] by metis
    ultimately show ?thesis by blast
  qed
  from c(1) cur c(3) nx pv mk show ?thesis by auto
qed

theorem carousel_index_and_markers_witness:
  "initCarousel markup0 = Ready carousel0 \<and>
   hd (slide_active markup0) \<and> True \<notin> set (tl (slide_active markup0)) \<and>
   dots_container markup0 = Some [] \<and>
   carousel_run [PrevClick, DotClick 1, Swipe 80] carousel0 =
     Some (carousel0\<lparr>slides := [False, False, True], dots := [False, False, True],
                     currentIndex := 2\<rparr>) \<and>
   map_option currentIndex (carousel_run [PrevClick] carousel0) = Some 2 \<and>
   map_option currentIndex (carousel_run [PrevClick, NextClick] carousel0) = Some 0 \<and>
   count_active [False, False, True] = 1"
proof -
  have ready: "initCarousel markup0 = Ready carousel0"
    by (simp add: markup0_def carousel0_def initCarousel_def)
  have first: "hd (slide_active markup0)" "True \<notin> set (tl (slide_active markup0))"
    "dots_container markup0 = Some []"
    by (simp_all add: markup0_def)
  have run: "carousel_run [PrevClick, DotClick 1, Swipe 80] carousel0 =
     Some (carousel0\<lparr>slides := [False, False, True], dots := [False, False, True],
                     currentIndex := 2\<rparr>)"
    by (simp add: carousel0_def nextSlide_def prevSlide_def goToSlide_def classList_set_def
        js_rem_def Let_def)
  have prev: "map_option currentIndex (carousel_run [PrevClick] carousel0) = Some 2"
    by (simp add: carousel0_def prevSlide_def goToSlide_def classList_set_def js_rem_def Let_def)
  have wrapped: "map_option currentIndex (carousel_run [PrevClick, NextClick] carousel0) = Some 0"
    by (simp add: carousel0_def nextSlide_def prevSlide_def goToSlide_def classList_set_def
        js_rem_def Let_def)
  from carousel_index_and_markers [OF ready, of "[PrevClick, DotClick 1, Swipe 80]"] first
  have "count_active [False, False, True] = 1"
    unfolding run by simp
  with ready first run prev wrapped show ?thesis by simp
qed

text \<open>
  Claim C10 as stated, for every carousel, fails: the slide markers come from the markup,
  and \<open>goToSlide\<close> only clears the marker of the slide at the current index. With three
  slides of which the markup marks the second, one click on the previous button leaves
  two slides active.
\<close>

theorem carousel_two_active_slides:
  "initCarousel markup1 = Ready carousel1 \<and>
   carousel_run [PrevClick] carousel1 =
     Some (carousel1\<lparr>slides := [False, True, True], dots := [False, False, True], currentIndex := 2\<rparr>) \<and>
   count_active [False, True, True] = 2"
  by (simp add: markup1_def carousel1_def initCarousel_def prevSlide_def goToSlide_def
      classList_set_def js_rem_def count_active_def Let_def)

end
